theory Spec2Isabelle
  imports Complex_Main
begin

section \<open>The offline synchronisation queue of the attendance kiosk\<close>

text \<open>
  This theory embeds \<^verbatim>\<open>src/services/OfflineSyncManager.js\<close>: the class
  \<^verbatim>\<open>OfflineSyncManager\<close>, its queue of pending deliveries, the drain pass
  \<^verbatim>\<open>syncAll\<close>, the persistence helpers and the conflict resolver.

  Conventions of the embedding.
  \<^item> Queue items are JavaScript objects that are shared between \<^verbatim>\<open>this.syncQueue\<close>
    and the snapshot \<^verbatim>\<open>itemsToSync\<close> of a drain pass, and the pass mutates them in
    place. The model therefore keeps an explicit store \<open>heap\<close> from references to item
    values; a queue is a list of references.
  \<^item> Everything the code obtains from its platform is an explicit input: the answer of the
    network to a delivery attempt, whether an \<^verbatim>\<open>AsyncStorage\<close> call resolves or
    rejects, the clock, and the value of \<^verbatim>\<open>Date.now() + Math.random()\<close>.
  \<^item> A rejected promise (a thrown error) is the left injection of a sum type.
  \<^item> An \<^verbatim>\<open>async\<close> method is modelled twice. The definition that bears its name
    runs the method from its call to the moment its promise settles, with no other call of
    the manager at its \<^verbatim>\<open>await\<close> points; a call that the method makes without
    awaiting it (\<^verbatim>\<open>this.syncAll()\<close> at lines 46 and 93) is run up to its first
    \<^verbatim>\<open>await\<close> only, and the pass it has started is part of the result. The
    section on calls that overlap runs the same code from await to await, with other calls
    in between.
  \<^item> Listeners are observers: a call of a listener is recorded in \<open>delivered\<close>, and
    the listener itself neither throws nor calls back into the manager.
\<close>

subsection \<open>Data\<close>

type_synonym ref = nat

type_synonym listener = nat

text \<open>A queue item, as built by \<^verbatim>\<open>addToQueue\<close> (lines 77-86). The field
  \<^verbatim>\<open>id\<close> is a JavaScript number; \<^verbatim>\<open>lastError\<close> is absent until the first
  failed attempt.\<close>

record 'd queueItem =
  item_id :: real
  timestamp :: string
  operation :: string
  data :: 'd
  url :: string
  http_method :: string
  retries :: nat
  status :: string
  lastError :: "string option"

text \<open>The argument of \<^verbatim>\<open>addToQueue\<close>: \<^verbatim>\<open>{type, data, url, method?}\<close>.\<close>

record 'd operation_request =
  op_type :: string
  op_data :: 'd
  op_url :: string
  op_method :: "string option"

record errorEntry =
  err_id :: real
  err_operation :: string
  error :: string

text \<open>The object \<^verbatim>\<open>results\<close> of a drain pass (lines 150-155).\<close>

record syncResult =
  total :: nat
  succeeded :: nat
  failed :: nat
  errors :: "errorEntry list"

datatype syncReturn = Rejected string | Results syncResult

datatype js_error = Error string

datatype event = Online "bool option" | SyncStarted | SyncCompleted syncResult

text \<open>What the network answers to one call of \<^verbatim>\<open>syncItem\<close>: the call returns, or it
  throws an error with the given message.\<close>

datatype outcome = Delivered | Fails string

text \<open>Whether an \<^verbatim>\<open>AsyncStorage\<close> call resolves or rejects.\<close>

datatype io = IoOk | IoFails string

text \<open>The content of the storage slot \<^verbatim>\<open>offline_sync_queue\<close>: nothing (or the empty
  string, which \<^verbatim>\<open>if (stored)\<close> treats alike), a text that \<^verbatim>\<open>JSON.parse\<close>
  rejects, or the serialised items.\<close>

datatype 'd slot = Absent | Unparsable | Stored "'d queueItem list"

text \<open>The state reported by \<^verbatim>\<open>NetInfo\<close>; both fields are
  \<^verbatim>\<open>boolean | null\<close>, and \<open>None\<close> stands for \<^verbatim>\<open>null\<close>.\<close>

record netState =
  isConnected :: "bool option"
  isInternetReachable :: "bool option"

text \<open>The manager (constructor, lines 18-25) together with the parts of the world it acts
  on: the store of item objects, the two storage slots, the calls made to listeners, the
  lines written by \<^verbatim>\<open>console.error\<close>, and the number of handlers registered with
  \<^verbatim>\<open>NetInfo\<close>. The field \<^verbatim>\<open>retryAttempts\<close> of the class is never read or
  written after construction and is left out.\<close>

record 'd manager =
  isOnline :: "bool option"
  syncQueue :: "ref list"
  syncInProgress :: bool
  listeners :: "listener list"
  maxRetries :: nat
  heap :: "ref \<Rightarrow> 'd queueItem"
  next_ref :: ref
  queue_slot :: "'d slot"
  status_slot :: "(string \<times> syncResult) option"
  delivered :: "(listener \<times> event) list"
  console :: "string list"
  netHandlers :: nat

text \<open>The inputs of one drain pass: the network's answer for each item object, the outcome
  of the two storage writes, and the clock.\<close>

record drain_env =
  deliver :: "ref \<Rightarrow> outcome"
  queueWrite :: io
  statusWrite :: io
  now :: string

text \<open>The inputs of one call of \<^verbatim>\<open>addToQueue\<close>: the value of
  \<^verbatim>\<open>Date.now() + Math.random()\<close>, the clock, and the outcome of the storage write.\<close>

record enqueue_env =
  new_id :: real
  created :: string
  saveWrite :: io

subsection \<open>JavaScript truthiness of the online flag\<close>

text \<open>\<^verbatim>\<open>a && b\<close> on values that are \<^verbatim>\<open>true\<close>, \<^verbatim>\<open>false\<close> or
  \<^verbatim>\<open>null\<close>: the left operand when it is falsy, the right operand otherwise.\<close>

definition js_and :: "bool option \<Rightarrow> bool option \<Rightarrow> bool option" where
  "js_and a b = (if a = Some True then b else a)"

definition truthy :: "bool option \<Rightarrow> bool" where
  "truthy a \<longleftrightarrow> a = Some True"

subsection \<open>Construction, listeners\<close>

text \<open>The constructor (lines 18-25). Its arguments are what the world holds when the
  manager is created: the store of objects and the content of the storage slot.\<close>

definition constructor :: "(ref \<Rightarrow> 'd queueItem) \<Rightarrow> 'd slot \<Rightarrow> 'd manager" where
  "constructor h s =
     \<lparr>isOnline = Some True, syncQueue = [], syncInProgress = False, listeners = [],
      maxRetries = 3, heap = h, next_ref = 0, queue_slot = s, status_slot = None,
      delivered = [], console = [], netHandlers = 0\<rparr>"

definition subscribe :: "'d manager \<Rightarrow> listener \<Rightarrow> 'd manager" where
  "subscribe st l = st\<lparr>listeners := listeners st @ [l]\<rparr>"

definition unsubscribe :: "'d manager \<Rightarrow> listener \<Rightarrow> 'd manager" where
  "unsubscribe st l = st\<lparr>listeners := filter (\<lambda>l'. l' \<noteq> l) (listeners st)\<rparr>"

definition notifyListeners :: "'d manager \<Rightarrow> event \<Rightarrow> 'd manager" where
  "notifyListeners st e = st\<lparr>delivered := delivered st @ map (\<lambda>l. (l, e)) (listeners st)\<rparr>"

subsection \<open>Persistence\<close>

text \<open>\<^verbatim>\<open>saveQueue\<close> (lines 102-108): \<^verbatim>\<open>JSON.stringify(this.syncQueue)\<close> reads the
  current value of every item object; a rejected write is caught and logged.\<close>

definition saveQueue :: "'d manager \<Rightarrow> io \<Rightarrow> 'd manager" where
  "saveQueue st w =
     (case w of
        IoOk \<Rightarrow> st\<lparr>queue_slot := Stored (map (heap st) (syncQueue st))\<rparr>
      | IoFails msg \<Rightarrow> st\<lparr>console := console st @ [''Failed to save sync queue: '' @ msg]\<rparr>)"

text \<open>\<^verbatim>\<open>JSON.parse\<close> builds fresh objects: the items are stored at the next free
  references.\<close>

definition allocate :: "'d manager \<Rightarrow> 'd queueItem list \<Rightarrow> 'd manager" where
  "allocate st items =
     st\<lparr>heap := (\<lambda>r. if next_ref st \<le> r \<and> r < next_ref st + length items
                       then items ! (r - next_ref st) else heap st r),
        syncQueue := [next_ref st ..< next_ref st + length items],
        next_ref := next_ref st + length items\<rparr>"

text \<open>\<^verbatim>\<open>loadQueue\<close> (lines 113-123). The argument says whether
  \<^verbatim>\<open>AsyncStorage.getItem\<close> resolves.\<close>

definition loadQueue :: "'d manager \<Rightarrow> io \<Rightarrow> 'd manager" where
  "loadQueue st rd =
     (case rd of
        IoFails msg \<Rightarrow>
          st\<lparr>console := console st @ [''Failed to load sync queue: '' @ msg], syncQueue := []\<rparr>
      | IoOk \<Rightarrow>
          (case queue_slot st of
             Absent \<Rightarrow> st
           | Unparsable \<Rightarrow>
               st\<lparr>console := console st @ [''Failed to load sync queue: SyntaxError''],
                  syncQueue := []\<rparr>
           | Stored items \<Rightarrow> allocate st items))"

subsection \<open>The drain pass\<close>

text \<open>The test of line 161.\<close>

definition eligible :: "nat \<Rightarrow> 'd queueItem \<Rightarrow> bool" where
  "eligible mx it \<longleftrightarrow>
     status it = ''pending'' \<or> (status it = ''failed'' \<and> retries it < mx)"

text \<open>\<^verbatim>\<open>this.syncQueue = this.syncQueue.filter(i => i.id !== item.id)\<close>\<close>

definition dropId :: "'d manager \<Rightarrow> real \<Rightarrow> 'd manager" where
  "dropId st x = st\<lparr>syncQueue := filter (\<lambda>i. item_id (heap st i) \<noteq> x) (syncQueue st)\<rparr>"

text \<open>The three assignments of the \<^verbatim>\<open>catch\<close> block (lines 170-172).\<close>

definition markFailed :: "string \<Rightarrow> 'd queueItem \<Rightarrow> 'd queueItem" where
  "markFailed msg it = it\<lparr>retries := retries it + 1, status := ''failed'', lastError := Some msg\<rparr>"

text \<open>One iteration of the loop of lines 160-186, for the item object \<open>r\<close> of the
  snapshot and the answer \<open>oc\<close> of the network to its delivery.\<close>

definition syncStep :: "ref \<Rightarrow> outcome \<Rightarrow> 'd manager \<times> syncResult \<Rightarrow> 'd manager \<times> syncResult" where
  "syncStep r oc sr =
     (let st = fst sr; res = snd sr; item = heap st r in
      if eligible (maxRetries st) item then
        (case oc of
           Delivered \<Rightarrow>
             (dropId st (item_id item), res\<lparr>succeeded := succeeded res + 1\<rparr>)
         | Fails msg \<Rightarrow>
             (let item' = markFailed msg item;
                  st1 = st\<lparr>heap := (heap st)(r := item')\<rparr>;
                  res1 = res\<lparr>failed := failed res + 1,
                            errors := errors res @
                              [\<lparr>err_id = item_id item', err_operation = operation item',
                                error = msg\<rparr>]\<rparr>
              in if maxRetries st1 \<le> retries item' then (dropId st1 (item_id item'), res1)
                 else (st1, res1)))
      else sr)"

fun syncLoop :: "(ref \<Rightarrow> outcome) \<Rightarrow> ref list \<Rightarrow> 'd manager \<times> syncResult \<Rightarrow> 'd manager \<times> syncResult" where
  "syncLoop net [] sr = sr"
| "syncLoop net (r # rs) sr = syncLoop net rs (syncStep r (net r) sr)"

text \<open>\<^verbatim>\<open>syncAll\<close> (lines 142-203). The write of the slot
  \<^verbatim>\<open>last_sync_status\<close> (line 191) is awaited outside any \<^verbatim>\<open>try\<close>: when it
  rejects, the method rejects at that point.\<close>

definition syncAll :: "'d manager \<Rightarrow> drain_env \<Rightarrow> 'd manager \<times> (js_error + syncReturn)" where
  "syncAll st env =
     (if \<not> truthy (isOnline st) \<or> syncInProgress st then
        (st, Inr (Rejected (if syncInProgress st then ''sync_in_progress'' else ''offline'')))
      else
        (let st1 = st\<lparr>syncInProgress := True\<rparr>;
             st2 = notifyListeners st1 SyncStarted;
             results0 = \<lparr>total = length (syncQueue st2), succeeded = 0, failed = 0, errors = []\<rparr>;
             itemsToSync = syncQueue st2;
             looped = syncLoop (deliver env) itemsToSync (st2, results0);
             results = snd looped;
             st4 = saveQueue (fst looped) (queueWrite env)
         in (case statusWrite env of
               IoFails msg \<Rightarrow> (st4, Inl (Error msg))
             | IoOk \<Rightarrow>
                 (let st5 = st4\<lparr>status_slot := Some (now env, results)\<rparr>;
                      st6 = st5\<lparr>syncInProgress := False\<rparr>;
                      st7 = notifyListeners st6 (SyncCompleted results)
                  in (st7, Inr (Results results))))))"

text \<open>\<^verbatim>\<open>forceSync\<close> (lines 287-292).\<close>

definition forceSync :: "'d manager \<Rightarrow> drain_env \<Rightarrow> 'd manager \<times> (js_error + syncReturn)" where
  "forceSync st env =
     (if \<not> truthy (isOnline st) then (st, Inl (Error ''Cannot sync while offline''))
      else syncAll st env)"

subsection \<open>A drain pass between its awaits\<close>

text \<open>The methods above run from their call to their end. A call of an \<^verbatim>\<open>async\<close>
  method really runs until its next \<^verbatim>\<open>await\<close>, is suspended there, and goes on when
  the awaited platform call settles; in between, other calls and handlers of the manager run.
  A suspended call of \<^verbatim>\<open>syncAll\<close> waits for one of three things: the delivery of an
  item (line 163; the rest of the snapshot \<^verbatim>\<open>itemsToSync\<close> and the results so far are
  kept), the write of \<^verbatim>\<open>saveQueue\<close> (line 188; \<^verbatim>\<open>JSON.stringify\<close> has read the
  queue when the write is issued), or the write of the status (line 191; the time stamp and
  the results are serialised when the write is issued).\<close>

datatype 'd pass =
    AwaitDelivery ref "ref list" syncResult
  | AwaitQueueWrite "'d queueItem list" syncResult
  | AwaitStatusWrite string syncResult

text \<open>The body of the \<^verbatim>\<open>try\<close> statement once the delivery has settled (lines
  165-183): what \<open>syncStep\<close> does after the test of line 161.\<close>

definition settleDelivery :: "ref \<Rightarrow> outcome \<Rightarrow> 'd manager \<times> syncResult \<Rightarrow> 'd manager \<times> syncResult" where
  "settleDelivery r oc sr =
     (let st = fst sr; res = snd sr; item = heap st r in
      case oc of
        Delivered \<Rightarrow> (dropId st (item_id item), res\<lparr>succeeded := succeeded res + 1\<rparr>)
      | Fails msg \<Rightarrow>
          (let item' = markFailed msg item;
               st1 = st\<lparr>heap := (heap st)(r := item')\<rparr>;
               res1 = res\<lparr>failed := failed res + 1,
                         errors := errors res @
                           [\<lparr>err_id = item_id item', err_operation = operation item',
                             error = msg\<rparr>]\<rparr>
           in if maxRetries st1 \<le> retries item' then (dropId st1 (item_id item'), res1)
              else (st1, res1)))"

text \<open>The loop from a given rest of the snapshot up to the next await: items that fail the
  test of line 161, as they are now, are passed over; the loop stops at the first item that
  passes it, or ends and calls \<^verbatim>\<open>saveQueue\<close>.\<close>

fun advance :: "ref list \<Rightarrow> syncResult \<Rightarrow> 'd manager \<Rightarrow> 'd pass" where
  "advance [] res st = AwaitQueueWrite (map (heap st) (syncQueue st)) res"
| "advance (r # rs) res st =
     (if eligible (maxRetries st) (heap st r) then AwaitDelivery r rs res
      else advance rs res st)"

text \<open>\<^verbatim>\<open>syncAll\<close> from its call to its first await (lines 143-163): the call is
  refused, or a pass starts and is suspended.\<close>

definition syncAllBegin :: "'d manager \<Rightarrow> 'd manager \<times> (syncReturn + 'd pass)" where
  "syncAllBegin st =
     (if \<not> truthy (isOnline st) \<or> syncInProgress st then
        (st, Inl (Rejected (if syncInProgress st then ''sync_in_progress'' else ''offline'')))
      else
        (let st1 = st\<lparr>syncInProgress := True\<rparr>;
             st2 = notifyListeners st1 SyncStarted;
             results0 = \<lparr>total = length (syncQueue st2), succeeded = 0, failed = 0, errors = []\<rparr>;
             itemsToSync = syncQueue st2
         in (st2, Inr (advance itemsToSync results0 st2))))"

text \<open>The write of \<^verbatim>\<open>saveQueue\<close> has settled (lines 104-107): the items that were
  serialised are in the slot, or the error is logged.\<close>

definition saveSettled :: "io \<Rightarrow> 'd queueItem list \<Rightarrow> 'd manager \<Rightarrow> 'd manager" where
  "saveSettled w items st =
     (case w of
        IoOk \<Rightarrow> st\<lparr>queue_slot := Stored items\<rparr>
      | IoFails msg \<Rightarrow> st\<lparr>console := console st @ [''Failed to save sync queue: '' @ msg]\<rparr>)"

text \<open>The write of the status has settled (lines 191-202).\<close>

definition statusSettled :: "io \<Rightarrow> string \<Rightarrow> syncResult \<Rightarrow> 'd manager \<Rightarrow> 'd manager \<times> (js_error + syncReturn)" where
  "statusSettled w t results st =
     (case w of
        IoFails msg \<Rightarrow> (st, Inl (Error msg))
      | IoOk \<Rightarrow>
          (let st5 = st\<lparr>status_slot := Some (t, results)\<rparr>;
               st6 = st5\<lparr>syncInProgress := False\<rparr>;
               st7 = notifyListeners st6 (SyncCompleted results)
           in (st7, Inr (Results results))))"

text \<open>The number of awaits a suspended pass still has before it, at most.\<close>

fun awaitsLeft :: "'d pass \<Rightarrow> nat" where
  "awaitsLeft (AwaitDelivery r rs res) = length rs + 3"
| "awaitsLeft (AwaitQueueWrite items res) = 2"
| "awaitsLeft (AwaitStatusWrite t res) = 1"

text \<open>A suspended pass run to its end with the answers of \<open>env\<close>, nothing else of the
  manager running at its awaits.\<close>

function runPass :: "drain_env \<Rightarrow> 'd pass \<Rightarrow> 'd manager \<Rightarrow> 'd manager \<times> (js_error + syncReturn)" where
  "runPass env (AwaitDelivery r rs res) st =
     runPass env (advance rs (snd (settleDelivery r (deliver env r) (st, res)))
                    (fst (settleDelivery r (deliver env r) (st, res))))
       (fst (settleDelivery r (deliver env r) (st, res)))"
| "runPass env (AwaitQueueWrite items res) st =
     runPass env (AwaitStatusWrite (now env) res) (saveSettled (queueWrite env) items st)"
| "runPass env (AwaitStatusWrite t res) st = statusSettled (statusWrite env) t res st"
  by pat_completeness auto
termination
proof (relation "measure (\<lambda>(env, p, st). awaitsLeft p)")
  show "wf (measure (\<lambda>(env, p, st). awaitsLeft p))" by simp
next
  fix env :: drain_env and r rs res and st :: "'a manager"
  have a: "awaitsLeft (advance xs res' st') \<le> length xs + 2"
    for xs res' and st' :: "'a manager"
    by (induction xs) simp_all
  have "awaitsLeft (advance rs (snd (settleDelivery r (deliver env r) (st, res)))
                    (fst (settleDelivery r (deliver env r) (st, res)))) \<le> length rs + 2"
    by (rule a)
  then show "((env, advance rs (snd (settleDelivery r (deliver env r) (st, res)))
                    (fst (settleDelivery r (deliver env r) (st, res))),
               fst (settleDelivery r (deliver env r) (st, res))),
              (env, AwaitDelivery r rs res, st)) \<in> measure (\<lambda>(env, p, st). awaitsLeft p)"
    by simp
next
  fix env :: drain_env and items :: "'a queueItem list" and res and st :: "'a manager"
  show "((env, AwaitStatusWrite (now env) res, saveSettled (queueWrite env) items st),
         (env, AwaitQueueWrite items res, st)) \<in> measure (\<lambda>(env, p, st). awaitsLeft p)"
    by simp
qed

text \<open>A call \<^verbatim>\<open>this.syncAll()\<close> whose promise is dropped (lines 46 and 93): the caller
  goes on as soon as the call is refused or suspended at its first await. The result is the
  state at that moment and the pass that has started, if one has.\<close>

definition fireSyncAll :: "'d manager \<Rightarrow> 'd manager \<times> 'd pass option" where
  "fireSyncAll st =
     (case snd (syncAllBegin st) of
        Inl refused \<Rightarrow> (fst (syncAllBegin st), None)
      | Inr p \<Rightarrow> (fst (syncAllBegin st), Some p))"

subsection \<open>Queue management\<close>

text \<open>\<^verbatim>\<open>operation.method || 'POST'\<close>: an absent method and the empty string are
  falsy.\<close>

definition methodOrPost :: "string option \<Rightarrow> string" where
  "methodOrPost m = (case m of None \<Rightarrow> ''POST'' | Some s \<Rightarrow> if s = [] then ''POST'' else s)"

text \<open>The item built at lines 77-86; \<open>i\<close> is the value of
  \<^verbatim>\<open>Date.now() + Math.random()\<close> and \<open>t\<close> the clock.\<close>

definition newItem :: "'d operation_request \<Rightarrow> real \<Rightarrow> string \<Rightarrow> 'd queueItem" where
  "newItem opn i t =
     \<lparr>item_id = i, timestamp = t, operation = op_type opn,
      data = op_data opn, url = op_url opn, http_method = methodOrPost (op_method opn),
      retries = 0, status = ''pending'', lastError = None\<rparr>"

text \<open>\<^verbatim>\<open>this.syncQueue.push(queueItem)\<close>: the new object is stored at the next free
  reference.\<close>

definition pushItem :: "'d manager \<Rightarrow> 'd queueItem \<Rightarrow> 'd manager" where
  "pushItem st it =
     st\<lparr>heap := (heap st)(next_ref st := it),
        syncQueue := syncQueue st @ [next_ref st],
        next_ref := Suc (next_ref st)\<rparr>"

text \<open>\<^verbatim>\<open>addToQueue\<close> (lines 76-97), from its call to the moment its promise resolves.
  The call \<^verbatim>\<open>this.syncAll()\<close> of line 93 is not awaited: \<^verbatim>\<open>addToQueue\<close>
  returns while the pass that this call may have started is suspended at its first await.
  The result is the state at that moment, that pass (\<open>None\<close> when none was started), and
  the id returned.\<close>

definition addToQueue :: "'d manager \<Rightarrow> 'd operation_request \<Rightarrow> enqueue_env \<Rightarrow> ('d manager \<times> 'd pass option) \<times> real" where
  "addToQueue st opn env =
     (let queueItem = newItem opn (new_id env) (created env);
          st1 = pushItem st queueItem;
          st2 = saveQueue st1 (saveWrite env)
      in (if truthy (isOnline st2) then fireSyncAll st2 else (st2, None), item_id queueItem))"

text \<open>\<^verbatim>\<open>removeQueueItem\<close> (lines 304-307) and \<^verbatim>\<open>clearQueue\<close> (lines 227-230).\<close>

definition removeQueueItem :: "'d manager \<Rightarrow> real \<Rightarrow> io \<Rightarrow> 'd manager" where
  "removeQueueItem st x w = saveQueue (dropId st x) w"

definition clearQueue :: "'d manager \<Rightarrow> io \<Rightarrow> 'd manager" where
  "clearQueue st w = saveQueue (st\<lparr>syncQueue := []\<rparr>) w"

text \<open>\<^verbatim>\<open>getQueueItems\<close> (lines 297-299), read as the item values.\<close>

definition getQueueItems :: "'d manager \<Rightarrow> 'd queueItem list" where
  "getQueueItems st = map (heap st) (syncQueue st)"

definition checkOnlineStatus :: "'d manager \<Rightarrow> bool option" where
  "checkOnlineStatus st = isOnline st"

subsection \<open>Network monitoring\<close>

text \<open>What \<^verbatim>\<open>NetInfo.fetch()\<close> does: it resolves with a state or rejects.\<close>

datatype probe = Probed netState | ProbeFails string

text \<open>\<^verbatim>\<open>initialize\<close> (lines 32-55). There is no \<^verbatim>\<open>try\<close> in the method: a
  rejection of \<^verbatim>\<open>NetInfo.fetch()\<close> rejects the method.\<close>

definition initialize :: "'d manager \<Rightarrow> io \<Rightarrow> probe \<Rightarrow> 'd manager \<times> (js_error + bool option)" where
  "initialize st rd p =
     (let st1 = loadQueue st rd;
          st2 = st1\<lparr>netHandlers := Suc (netHandlers st1)\<rparr>
      in (case p of
            ProbeFails msg \<Rightarrow> (st2, Inl (Error msg))
          | Probed ns \<Rightarrow>
              (let st3 = st2\<lparr>isOnline := js_and (isConnected ns) (isInternetReachable ns)\<rparr>
               in (st3, Inr (isOnline st3)))))"

text \<open>The handler registered at line 37, run by the platform on a connectivity change. The
  call \<^verbatim>\<open>this.syncAll()\<close> of line 46 is not awaited: the handler returns while the
  pass that this call may have started is suspended at its first await. The result is the
  state when the handler returns and that pass (\<open>None\<close> when none was started).\<close>

definition netListener :: "'d manager \<Rightarrow> netState \<Rightarrow> 'd manager \<times> 'd pass option" where
  "netListener st ns =
     (let wasOnline = isOnline st;
          st1 = st\<lparr>isOnline := js_and (isConnected ns) (isInternetReachable ns)\<rparr>;
          st2 = notifyListeners st1 (Online (isOnline st1))
      in if \<not> truthy wasOnline \<and> truthy (isOnline st2) then fireSyncAll st2 else (st2, None))"

subsection \<open>Conflict resolution\<close>

text \<open>The values a record field can hold, as far as \<^verbatim>\<open>resolveConflict\<close> looks at them;
  numbers are restricted to integers. A record is a finite map from field names to values.\<close>

datatype jsval = JUndefined | JNull | JBool bool | JNum int | JStr string

type_synonym jsobject = "string \<Rightarrow> jsval option"

definition js_truthy :: "jsval \<Rightarrow> bool" where
  "js_truthy v =
     (case v of JUndefined \<Rightarrow> False | JNull \<Rightarrow> False | JBool b \<Rightarrow> b
      | JNum n \<Rightarrow> n \<noteq> 0 | JStr s \<Rightarrow> s \<noteq> [])"

text \<open>\<^verbatim>\<open>obj.timestamp\<close>, and \<^verbatim>\<open>v || 0\<close>.\<close>

definition getField :: "jsobject \<Rightarrow> string \<Rightarrow> jsval" where
  "getField obj k = (case obj k of None \<Rightarrow> JUndefined | Some v \<Rightarrow> v)"

definition orZero :: "jsval \<Rightarrow> jsval" where
  "orZero v = (if js_truthy v then v else JNum 0)"

text \<open>The time value of \<^verbatim>\<open>new Date(v)\<close> in milliseconds, \<open>None\<close> for an invalid date.
  How a string is parsed is left to the platform (\<^verbatim>\<open>Date.parse\<close>) and is the
  parameter \<open>parse\<close>.\<close>

definition newDate :: "(string \<Rightarrow> int option) \<Rightarrow> jsval \<Rightarrow> int option" where
  "newDate parse v =
     (case v of
        JUndefined \<Rightarrow> None
      | JNull \<Rightarrow> Some 0
      | JBool b \<Rightarrow> Some (if b then 1 else 0)
      | JNum n \<Rightarrow> if \<bar>n\<bar> \<le> 8640000000000000 then Some n else None
      | JStr s \<Rightarrow> parse s)"

text \<open>\<^verbatim>\<open>a > b\<close> on two dates: false as soon as one of them is invalid.\<close>

definition dateGreater :: "int option \<Rightarrow> int option \<Rightarrow> bool" where
  "dateGreater a b = (case a of None \<Rightarrow> False | Some x \<Rightarrow> (case b of None \<Rightarrow> False | Some y \<Rightarrow> y < x))"

text \<open>\<^verbatim>\<open>resolveConflict\<close> (lines 249-273). The strategy \<open>None\<close> is the omitted
  argument, which the default parameter replaces by \<open>server_wins\<close>; \<open>clock\<close> is the value
  of \<^verbatim>\<open>new Date().toISOString()\<close> at the call.\<close>

definition resolveConflict :: "(string \<Rightarrow> int option) \<Rightarrow> string \<Rightarrow> jsobject \<Rightarrow> jsobject \<Rightarrow> string option \<Rightarrow> jsobject" where
  "resolveConflict parse clock serverData localData strategy =
     (let s = (case strategy of None \<Rightarrow> ''server_wins'' | Some x \<Rightarrow> x) in
      if s = ''server_wins'' then serverData
      else if s = ''local_wins'' then localData
      else if s = ''merge'' then
        (serverData ++ localData)(''_merged'' \<mapsto> JBool True, ''_mergedAt'' \<mapsto> JStr clock)
      else if s = ''newer_wins'' then
        (let serverTime = newDate parse (orZero (getField serverData ''timestamp''));
             localTime = newDate parse (orZero (getField localData ''timestamp''))
         in if dateGreater localTime serverTime then localData else serverData)
      else serverData)"

subsection \<open>Sequences of calls\<close>


text \<open>A sequence of calls of \<^verbatim>\<open>addToQueue\<close>, each awaited before the next: the state
  after the last call, the passes that the calls have started, and the ids they return.\<close>

fun enqueueAll :: "('d operation_request \<times> enqueue_env) list \<Rightarrow> 'd manager \<Rightarrow> ('d manager \<times> 'd pass list) \<times> real list" where
  "enqueueAll [] st = ((st, []), [])"
| "enqueueAll (c # cs) st =
     (let r1 = addToQueue st (fst c) (snd c);
          r2 = enqueueAll cs (fst (fst r1))
      in ((fst (fst r2),
           (case snd (fst r1) of None \<Rightarrow> [] | Some p \<Rightarrow> [p]) @ snd (fst r2)),
          snd r1 # snd r2))"

subsection \<open>Calls that overlap\<close>

text \<open>What the platform answers to an awaited call: the network to a delivery, the storage
  to a write or to a read, \<^verbatim>\<open>NetInfo.fetch()\<close> to the probe.\<close>

datatype answer = Net outcome | Wrote io | Read io | Probe probe

text \<open>A suspended pass goes on with the answer, up to its next await or to its end
  (\<open>None\<close>). The string is the clock, read when the write of the status is issued. An
  answer of the wrong kind is no step.\<close>

fun resumePass :: "'d pass \<Rightarrow> answer \<Rightarrow> string \<Rightarrow> 'd manager \<Rightarrow> ('d manager \<times> 'd pass option) option" where
  "resumePass (AwaitDelivery r rs res) (Net oc) clock st =
     (let sr = settleDelivery r oc (st, res)
      in Some (fst sr, Some (advance rs (snd sr) (fst sr))))"
| "resumePass (AwaitQueueWrite items res) (Wrote w) clock st =
     Some (saveSettled w items st, Some (AwaitStatusWrite clock res))"
| "resumePass (AwaitStatusWrite t res) (Wrote w) clock st =
     Some (fst (statusSettled w t res st), None)"
| "resumePass p a clock st = None"

text \<open>The answer that the inputs \<open>env\<close> of a pass hold for the await at which the pass is
  suspended.\<close>

definition answerOf :: "drain_env \<Rightarrow> 'd pass \<Rightarrow> answer" where
  "answerOf env p =
     (case p of
        AwaitDelivery r rs res \<Rightarrow> Net (deliver env r)
      | AwaitQueueWrite items res \<Rightarrow> Wrote (queueWrite env)
      | AwaitStatusWrite t res \<Rightarrow> Wrote (statusWrite env))"

text \<open>The calls of the manager that are suspended at an await. A call of
  \<^verbatim>\<open>addToQueue\<close>, \<^verbatim>\<open>removeQueueItem\<close> or \<^verbatim>\<open>clearQueue\<close> waits for the write
  of \<^verbatim>\<open>saveQueue\<close>, issued with the items as \<^verbatim>\<open>JSON.stringify\<close> has read them; a
  call of \<^verbatim>\<open>initialize\<close> waits for the read of \<^verbatim>\<open>loadQueue\<close> (line 115) and
  then for \<^verbatim>\<open>NetInfo.fetch()\<close> (line 51). The storage is written and read at the
  moment the platform call settles. The return of \<^verbatim>\<open>saveQueue\<close> or
  \<^verbatim>\<open>loadQueue\<close> to the method that awaits it is taken together with the settling of
  the platform call.\<close>

datatype 'd suspension =
    InSyncAll "'d pass"
  | InAddToQueue "'d queueItem list"
  | InSaveQueue "'d queueItem list"
  | InLoadQueue
  | InFetch

record 'd world =
  mgr :: "'d manager"
  suspended :: "'d suspension list"

text \<open>What can happen next: the application calls a method, the platform reports a
  connectivity change to the registered handler, or the platform call that the \<open>n\<close>-th
  suspended call awaits settles with an answer (the string is the clock at that moment).\<close>

datatype 'd call =
    CallSubscribe listener
  | CallUnsubscribe listener
  | CallInitialize
  | CallAddToQueue "'d operation_request" real string
  | CallRemoveQueueItem real
  | CallClearQueue
  | CallSyncAll
  | CallForceSync
  | NetChange netState
  | Settle nat answer string

text \<open>A suspended call goes on with the answer until its next await (the suspension it
  leaves) or its end (\<open>None\<close>). An answer of the wrong kind is no step.\<close>

fun resumeCall :: "'d suspension \<Rightarrow> answer \<Rightarrow> string \<Rightarrow> 'd manager \<Rightarrow> ('d manager \<times> 'd suspension option) option" where
  "resumeCall (InSyncAll p) a clock st =
     (case resumePass p a clock st of
        None \<Rightarrow> None
      | Some mp \<Rightarrow> Some (fst mp, map_option InSyncAll (snd mp)))"
| "resumeCall (InAddToQueue items) (Wrote w) clock st =
     (let st2 = saveSettled w items st;
          mp = (if truthy (isOnline st2) then fireSyncAll st2 else (st2, None))
      in Some (fst mp, map_option InSyncAll (snd mp)))"
| "resumeCall (InSaveQueue items) (Wrote w) clock st = Some (saveSettled w items st, None)"
| "resumeCall InLoadQueue (Read rd) clock st =
     (let st1 = loadQueue st rd
      in Some (st1\<lparr>netHandlers := Suc (netHandlers st1)\<rparr>, Some InFetch))"
| "resumeCall InFetch (Probe p) clock st =
     Some (case p of
             ProbeFails msg \<Rightarrow> st
           | Probed ns \<Rightarrow> st\<lparr>isOnline := js_and (isConnected ns) (isInternetReachable ns)\<rparr>,
           None)"
| "resumeCall t a clock st = None"

text \<open>The state after a call that may have started a pass: the pass joins the suspended
  calls.\<close>

definition started :: "'d manager \<times> 'd pass option \<Rightarrow> 'd suspension list \<Rightarrow> 'd world" where
  "started mp ts =
     \<lparr>mgr = fst mp, suspended = ts @ (case snd mp of None \<Rightarrow> [] | Some p \<Rightarrow> [InSyncAll p])\<rparr>"

text \<open>One step: a call runs up to its first await, the handler runs, or a suspended call
  goes on. There is a handler once \<^verbatim>\<open>initialize\<close> has registered one; when
  \<^verbatim>\<open>initialize\<close> has run several times the platform runs the handler once for each
  registration, which is as many steps. \<^verbatim>\<open>forceSync\<close> called while offline throws
  and changes nothing. The methods that only read the state are no steps, and what the calls
  return is not kept.\<close>

definition step :: "'d world \<Rightarrow> 'd call \<Rightarrow> 'd world option" where
  "step w c =
     (let st = mgr w; ts = suspended w in
      case c of
        CallSubscribe l \<Rightarrow> Some \<lparr>mgr = subscribe st l, suspended = ts\<rparr>
      | CallUnsubscribe l \<Rightarrow> Some \<lparr>mgr = unsubscribe st l, suspended = ts\<rparr>
      | CallInitialize \<Rightarrow> Some \<lparr>mgr = st, suspended = ts @ [InLoadQueue]\<rparr>
      | CallAddToQueue opn i t \<Rightarrow>
          (let st1 = pushItem st (newItem opn i t)
           in Some \<lparr>mgr = st1, suspended = ts @ [InAddToQueue (map (heap st1) (syncQueue st1))]\<rparr>)
      | CallRemoveQueueItem x \<Rightarrow>
          (let st1 = dropId st x
           in Some \<lparr>mgr = st1, suspended = ts @ [InSaveQueue (map (heap st1) (syncQueue st1))]\<rparr>)
      | CallClearQueue \<Rightarrow>
          Some \<lparr>mgr = st\<lparr>syncQueue := []\<rparr>, suspended = ts @ [InSaveQueue []]\<rparr>
      | CallSyncAll \<Rightarrow> Some (started (fireSyncAll st) ts)
      | CallForceSync \<Rightarrow>
          (if \<not> truthy (isOnline st) then Some w else Some (started (fireSyncAll st) ts))
      | NetChange ns \<Rightarrow>
          (if netHandlers st = 0 then None else Some (started (netListener st ns) ts))
      | Settle n a clock \<Rightarrow>
          (if n < length ts then
             (case resumeCall (ts ! n) a clock st of
                None \<Rightarrow> None
              | Some mt \<Rightarrow>
                  Some \<lparr>mgr = fst mt,
                        suspended = (case snd mt of
                                       None \<Rightarrow> take n ts @ drop (Suc n) ts
                                     | Some t \<Rightarrow> ts[n := t])\<rparr>)
           else None))"

text \<open>A sequence of steps; \<open>None\<close> when one of them is no step.\<close>

fun run :: "'d call list \<Rightarrow> 'd world \<Rightarrow> 'd world option" where
  "run [] w = Some w"
| "run (c # cs) w = (case step w c of None \<Rightarrow> None | Some w' \<Rightarrow> run cs w')"

text \<open>The application starts: a new manager, no call under way.\<close>

definition boot :: "(ref \<Rightarrow> 'd queueItem) \<Rightarrow> 'd slot \<Rightarrow> 'd world" where
  "boot h s = \<lparr>mgr = constructor h s, suspended = []\<rparr>"

subsection \<open>Describing a drain pass and the stored queue\<close>

text \<open>The following functions are not part of the program. They describe, in terms of the
  state at the start of a pass, what the loop of \<^verbatim>\<open>syncAll\<close> has done when it
  ends: which item objects were attempted, which ids were filtered out of the live queue,
  how the attempted objects were mutated, and what was counted.\<close>

definition attemptFails :: "(ref \<Rightarrow> outcome) \<Rightarrow> nat \<Rightarrow> (ref \<Rightarrow> 'd queueItem) \<Rightarrow> ref \<Rightarrow> bool" where
  "attemptFails net mx h r \<longleftrightarrow> eligible mx (h r) \<and> net r \<noteq> Delivered"

definition attemptSucceeds :: "(ref \<Rightarrow> outcome) \<Rightarrow> nat \<Rightarrow> (ref \<Rightarrow> 'd queueItem) \<Rightarrow> ref \<Rightarrow> bool" where
  "attemptSucceeds net mx h r \<longleftrightarrow> eligible mx (h r) \<and> net r = Delivered"

definition failMessage :: "outcome \<Rightarrow> string" where
  "failMessage oc = (case oc of Delivered \<Rightarrow> [] | Fails msg \<Rightarrow> msg)"

definition evicted :: "(ref \<Rightarrow> outcome) \<Rightarrow> nat \<Rightarrow> (ref \<Rightarrow> 'd queueItem) \<Rightarrow> ref \<Rightarrow> bool" where
  "evicted net mx h r \<longleftrightarrow>
     eligible mx (h r) \<and> (net r = Delivered \<or> mx \<le> Suc (retries (h r)))"

definition evictedIds :: "(ref \<Rightarrow> outcome) \<Rightarrow> nat \<Rightarrow> (ref \<Rightarrow> 'd queueItem) \<Rightarrow> ref list \<Rightarrow> real list" where
  "evictedIds net mx h rs = map (\<lambda>r. item_id (h r)) (filter (evicted net mx h) rs)"

definition heapAfter :: "(ref \<Rightarrow> outcome) \<Rightarrow> nat \<Rightarrow> ref list \<Rightarrow> (ref \<Rightarrow> 'd queueItem) \<Rightarrow> ref \<Rightarrow> 'd queueItem" where
  "heapAfter net mx rs h =
     (\<lambda>r. if r \<in> set rs \<and> attemptFails net mx h r then markFailed (failMessage (net r)) (h r)
          else h r)"

definition errorOf :: "(ref \<Rightarrow> outcome) \<Rightarrow> (ref \<Rightarrow> 'd queueItem) \<Rightarrow> ref \<Rightarrow> errorEntry" where
  "errorOf net h r =
     \<lparr>err_id = item_id (h r), err_operation = operation (h r), error = failMessage (net r)\<rparr>"

definition resultAfter :: "(ref \<Rightarrow> outcome) \<Rightarrow> nat \<Rightarrow> ref list \<Rightarrow> (ref \<Rightarrow> 'd queueItem) \<Rightarrow> syncResult \<Rightarrow> syncResult" where
  "resultAfter net mx rs h res =
     res\<lparr>succeeded := succeeded res + length (filter (attemptSucceeds net mx h) rs),
         failed := failed res + length (filter (attemptFails net mx h) rs),
         errors := errors res @ map (errorOf net h) (filter (attemptFails net mx h) rs)\<rparr>"

definition passHeap :: "drain_env \<Rightarrow> 'd manager \<Rightarrow> ref \<Rightarrow> 'd queueItem" where
  "passHeap env st = heapAfter (deliver env) (maxRetries st) (syncQueue st) (heap st)"

definition passQueue :: "drain_env \<Rightarrow> 'd manager \<Rightarrow> ref list" where
  "passQueue env st =
     filter (\<lambda>i. item_id (heap st i) \<notin>
                 set (evictedIds (deliver env) (maxRetries st) (heap st) (syncQueue st)))
       (syncQueue st)"

definition passResult :: "drain_env \<Rightarrow> 'd manager \<Rightarrow> syncResult" where
  "passResult env st =
     resultAfter (deliver env) (maxRetries st) (syncQueue st) (heap st)
       \<lparr>total = length (syncQueue st), succeeded = 0, failed = 0, errors = []\<rparr>"

definition passSaved :: "drain_env \<Rightarrow> 'd manager \<Rightarrow> 'd manager" where
  "passSaved env st =
     saveQueue
       (st\<lparr>syncInProgress := True,
           delivered := delivered st @ map (\<lambda>l. (l, SyncStarted)) (listeners st),
           heap := passHeap env st, syncQueue := passQueue env st\<rparr>)
       (queueWrite env)"

text \<open>The items held by the storage slot (none when the slot holds no parsable queue).\<close>

definition persistedItems :: "'d manager \<Rightarrow> 'd queueItem list" where
  "persistedItems st = (case queue_slot st of Stored items \<Rightarrow> items | _ \<Rightarrow> [])"

text \<open>The line that \<^verbatim>\<open>saveQueue\<close> logs for the outcome of its write.\<close>

definition saveLog :: "io \<Rightarrow> string list" where
  "saveLog w = (case w of IoOk \<Rightarrow> [] | IoFails msg \<Rightarrow> [''Failed to save sync queue: '' @ msg])"

subsection \<open>States the manager can reach\<close>

text \<open>An item as the manager itself leaves it in the queue: never attempted, or failed
  fewer than \<open>mx\<close> times.\<close>

definition wellFormed :: "nat \<Rightarrow> 'd queueItem \<Rightarrow> bool" where
  "wellFormed mx it \<longleftrightarrow>
     (status it = ''pending'' \<and> retries it = 0) \<or> (status it = ''failed'' \<and> retries it < mx)"

definition slotOk :: "nat \<Rightarrow> 'd slot \<Rightarrow> bool" where
  "slotOk mx s = (case s of Stored items \<Rightarrow> list_all (wellFormed mx) items | _ \<Rightarrow> True)"

text \<open>The items a suspended call has handed to the storage.\<close>

fun heldItems :: "'d suspension \<Rightarrow> 'd queueItem list" where
  "heldItems (InSyncAll (AwaitQueueWrite items res)) = items"
| "heldItems (InAddToQueue items) = items"
| "heldItems (InSaveQueue items) = items"
| "heldItems t = []"

text \<open>A manager in order: no item object is twice in the queue, the queued objects lie
  below the next free reference and are well-formed, and so are the stored items. A world in
  order: its manager is, and the items on their way to the storage are well-formed.\<close>

definition queueOk :: "'d manager \<Rightarrow> bool" where
  "queueOk st \<longleftrightarrow>
     distinct (syncQueue st) \<and>
     list_all (\<lambda>r. r < next_ref st \<and> wellFormed (maxRetries st) (heap st r)) (syncQueue st) \<and>
     slotOk (maxRetries st) (queue_slot st)"

definition worldOk :: "'d world \<Rightarrow> bool" where
  "worldOk w \<longleftrightarrow>
     queueOk (mgr w) \<and>
     list_all (\<lambda>t. list_all (wellFormed (maxRetries (mgr w))) (heldItems t)) (suspended w)"

subsection \<open>Sample inputs\<close>

text \<open>Concrete states and inputs at which the theorems below are evaluated.\<close>

definition sampleItem :: "real \<Rightarrow> unit queueItem" where
  "sampleItem i =
     \<lparr>item_id = i, timestamp = ''2025-12-22T09:00:00.000Z'', operation = ''attendance'',
      data = (), url = ''/sync'', http_method = ''POST'', retries = 0, status = ''pending'',
      lastError = None\<rparr>"

definition freshManager :: "unit manager" where
  "freshManager = constructor (\<lambda>r. sampleItem 0) Absent"

text \<open>An online manager holding two pending items, with ids 1 and 2.\<close>

definition twoQueued :: "unit manager" where
  "twoQueued =
     freshManager\<lparr>heap := (\<lambda>r. sampleItem (if r = 0 then 1 else 2)),
                  syncQueue := [0, 1], next_ref := 2, listeners := [7]\<rparr>"

text \<open>The first item is delivered, every other delivery is answered with HTTP 500.\<close>

definition firstDelivered :: drain_env where
  "firstDelivered =
     \<lparr>deliver = (\<lambda>r. if r = 0 then Delivered else Fails ''HTTP 500: ''),
      queueWrite = IoOk, statusWrite = IoOk, now = ''2025-12-22T09:01:00.000Z''\<rparr>"

text \<open>The manager is offline while a pass is in progress.\<close>

definition offlineWhileDraining :: "unit manager" where
  "offlineWhileDraining = twoQueued\<lparr>isOnline := Some False, syncInProgress := True\<rparr>"

definition offlineIdle :: "unit manager" where
  "offlineIdle = twoQueued\<lparr>isOnline := Some False\<rparr>"

text \<open>The write of the slot \<^verbatim>\<open>last_sync_status\<close> is rejected.\<close>

definition statusWriteFails :: drain_env where
  "statusWriteFails = firstDelivered\<lparr>statusWrite := IoFails ''disk full''\<rparr>"

definition stillOnline :: netState where
  "stillOnline = \<lparr>isConnected = Some True, isInternetReachable = Some True\<rparr>"

definition offlineProbe :: netState where
  "offlineProbe = \<lparr>isConnected = Some True, isInternetReachable = Some False\<rparr>"

definition offlineFresh :: "unit manager" where
  "offlineFresh = freshManager\<lparr>isOnline := Some False\<rparr>"

definition sampleRequest :: "unit operation_request" where
  "sampleRequest = \<lparr>op_type = ''attendance'', op_data = (), op_url = ''/sync'', op_method = None\<rparr>"

text \<open>Inputs of a call of \<^verbatim>\<open>addToQueue\<close> whose storage write is rejected, and of one
  whose write succeeds.\<close>

definition writeRejected :: enqueue_env where
  "writeRejected =
     \<lparr>new_id = 1766394000000.25, created = ''2025-12-22T09:00:00.000Z'',
      saveWrite = IoFails ''disk full''\<rparr>"

definition writeAccepted :: enqueue_env where
  "writeAccepted =
     \<lparr>new_id = 1766394060000.5, created = ''2025-12-22T09:01:00.000Z'',
      saveWrite = IoOk\<rparr>"

text \<open>A manager whose only item, with id 1, is also the content of the storage slot.\<close>

definition savedOne :: "unit manager" where
  "savedOne =
     freshManager\<lparr>heap := (\<lambda>r. sampleItem 1), syncQueue := [0], next_ref := 1,
                  queue_slot := Stored [sampleItem 1]\<rparr>"

text \<open>A platform parser that knows two time stamps.\<close>

definition twoStamps :: "string \<Rightarrow> int option" where
  "twoStamps s =
     (if s = ''2025-12-22T09:00:00.000Z'' then Some 1766394000000
      else if s = ''2025-12-22T09:01:00.000Z'' then Some 1766394060000 else None)"

definition serverRecord :: jsobject where
  "serverRecord = [''name'' \<mapsto> JStr ''server'', ''timestamp'' \<mapsto> JStr ''2025-12-22T09:00:00.000Z'']"

definition localRecord :: jsobject where
  "localRecord = [''name'' \<mapsto> JStr ''local'', ''timestamp'' \<mapsto> JStr ''2025-12-22T09:01:00.000Z'']"

definition untimedRecord :: jsobject where
  "untimedRecord = [''name'' \<mapsto> JStr ''untimed'']"








text \<open>A record with the time stamp of \<open>serverRecord\<close>, and one whose time stamp the
  platform does not parse.\<close>

definition tiedRecord :: jsobject where
  "tiedRecord = [''name'' \<mapsto> JStr ''tied'', ''timestamp'' \<mapsto> JStr ''2025-12-22T09:00:00.000Z'']"

definition undatedRecord :: jsobject where
  "undatedRecord = [''name'' \<mapsto> JStr ''undated'', ''timestamp'' \<mapsto> JStr ''yesterday'']"

section \<open>Properties\<close>

subsection \<open>The loop of a drain pass\<close>

lemma syncStep_char:
  "syncStep r (net r) (st, res) =
     (st\<lparr>heap := heapAfter net (maxRetries st) [r] (heap st),
         syncQueue := filter (\<lambda>i. item_id (heap st i) \<notin> set (evictedIds net (maxRetries st) (heap st) [r]))
                        (syncQueue st)\<rparr>,
      resultAfter net (maxRetries st) [r] (heap st) res)"
proof (cases "eligible (maxRetries st) (heap st r)")
  case False
  have "heapAfter net (maxRetries st) [r] (heap st) = heap st"
    using False by (simp add: heapAfter_def attemptFails_def fun_eq_iff)
  moreover have "resultAfter net (maxRetries st) [r] (heap st) res = res"
    using False by (simp add: resultAfter_def attemptFails_def attemptSucceeds_def)
  moreover have "evictedIds net (maxRetries st) (heap st) [r] = []"
    using False by (simp add: evictedIds_def evicted_def)
  ultimately show ?thesis using False
    by (simp add: syncStep_def)
next
  case True
  show ?thesis
  proof (cases "net r")
    case Delivered
    have "heapAfter net (maxRetries st) [r] (heap st) = heap st"
      using Delivered by (simp add: heapAfter_def attemptFails_def fun_eq_iff)
    moreover have "resultAfter net (maxRetries st) [r] (heap st) res = res\<lparr>succeeded := succeeded res + 1\<rparr>"
      using True Delivered by (simp add: resultAfter_def attemptFails_def attemptSucceeds_def)
    moreover have "evictedIds net (maxRetries st) (heap st) [r] = [item_id (heap st r)]"
      using True Delivered by (simp add: evictedIds_def evicted_def)
    ultimately show ?thesis using True Delivered
      by (simp add: syncStep_def dropId_def)
  next
    case (Fails msg)
    let ?st1 = "st\<lparr>heap := (heap st)(r := markFailed msg (heap st r))\<rparr>"
    have h: "heapAfter net (maxRetries st) [r] (heap st) = (heap st)(r := markFailed msg (heap st r))"
      using True Fails by (simp add: heapAfter_def attemptFails_def failMessage_def fun_eq_iff)
    have rr: "resultAfter net (maxRetries st) [r] (heap st) res =
        res\<lparr>failed := failed res + 1,
            errors := errors res @ [\<lparr>err_id = item_id (heap st r), err_operation = operation (heap st r), error = msg\<rparr>]\<rparr>"
      using True Fails by (simp add: resultAfter_def attemptFails_def attemptSucceeds_def errorOf_def failMessage_def)
    have ev: "evictedIds net (maxRetries st) (heap st) [r] =
        (if maxRetries st \<le> Suc (retries (heap st r)) then [item_id (heap st r)] else [])"
      using True Fails by (simp add: evictedIds_def evicted_def)
    have ids: "(\<lambda>i. item_id (heap ?st1 i) \<noteq> item_id (heap st r)) = (\<lambda>i. item_id (heap st i) \<noteq> item_id (heap st r))"
      by (simp add: markFailed_def fun_eq_iff)
    have dr: "dropId ?st1 (item_id (heap st r)) =
        ?st1\<lparr>syncQueue := filter (\<lambda>i. item_id (heap st i) \<noteq> item_id (heap st r)) (syncQueue st)\<rparr>"
      unfolding dropId_def ids by simp
    have step: "syncStep r (net r) (st, res) =
        (if maxRetries st \<le> Suc (retries (heap st r))
         then ?st1\<lparr>syncQueue := filter (\<lambda>i. item_id (heap st i) \<noteq> item_id (heap st r)) (syncQueue st)\<rparr>
         else ?st1,
         res\<lparr>failed := failed res + 1,
            errors := errors res @ [\<lparr>err_id = item_id (heap st r), err_operation = operation (heap st r), error = msg\<rparr>]\<rparr>)"
      using True Fails dr by (simp add: syncStep_def Let_def markFailed_def)
    show ?thesis unfolding step h rr ev by simp
  qed
qed

lemma heapAfter_ids: "item_id (heapAfter net mx rs h r) = item_id (h r)"
  by (simp add: heapAfter_def markFailed_def)

lemma evictedIds_cong:
  assumes "\<forall>x \<in> set rs. h1 x = h x"
  shows "evictedIds net mx h1 rs = evictedIds net mx h rs"
proof -
  have a: "filter (evicted net mx h1) rs = filter (evicted net mx h) rs"
  proof (rule filter_cong [OF refl])
    fix x assume "x \<in> set rs"
    then have "h1 x = h x" using assms by blast
    then show "evicted net mx h1 x = evicted net mx h x" by (simp add: evicted_def)
  qed
  have b: "map (\<lambda>r. item_id (h1 r)) (filter (evicted net mx h) rs)
         = map (\<lambda>r. item_id (h r)) (filter (evicted net mx h) rs)"
  proof (rule map_cong [OF refl])
    fix x assume "x \<in> set (filter (evicted net mx h) rs)"
    then show "item_id (h1 x) = item_id (h x)" using assms by simp
  qed
  show ?thesis unfolding evictedIds_def a b ..
qed

lemma evictedIds_Cons:
  "evictedIds net mx h (r # rs) = evictedIds net mx h [r] @ evictedIds net mx h rs"
  by (simp add: evictedIds_def)

lemma attemptFails_cong:
  assumes "\<forall>x \<in> set rs. h1 x = h x"
  shows "filter (attemptFails net mx h1) rs = filter (attemptFails net mx h) rs"
proof (rule filter_cong [OF refl])
  fix x assume "x \<in> set rs"
  then have "h1 x = h x" using assms by blast
  then show "attemptFails net mx h1 x = attemptFails net mx h x" by (simp add: attemptFails_def)
qed

lemma attemptSucceeds_cong:
  assumes "\<forall>x \<in> set rs. h1 x = h x"
  shows "filter (attemptSucceeds net mx h1) rs = filter (attemptSucceeds net mx h) rs"
proof (rule filter_cong [OF refl])
  fix x assume "x \<in> set rs"
  then have "h1 x = h x" using assms by blast
  then show "attemptSucceeds net mx h1 x = attemptSucceeds net mx h x"
    by (simp add: attemptSucceeds_def)
qed

lemma errorOf_cong:
  assumes "\<forall>x \<in> set rs. h1 x = h x"
  shows "map (errorOf net h1) (filter P rs) = map (errorOf net h) (filter P rs)"
proof (rule map_cong [OF refl])
  fix x assume "x \<in> set (filter P rs)"
  then have "h1 x = h x" using assms by simp
  then show "errorOf net h1 x = errorOf net h x" by (simp add: errorOf_def)
qed

lemma resultAfter_Cons:
  assumes "\<forall>x \<in> set rs. h1 x = h x"
  shows "resultAfter net mx rs h1 (resultAfter net mx [r] h res) = resultAfter net mx (r # rs) h res"
proof -
  have a: "filter (attemptFails net mx h1) rs = filter (attemptFails net mx h) rs"
    by (rule attemptFails_cong [OF assms])
  have b: "filter (attemptSucceeds net mx h1) rs = filter (attemptSucceeds net mx h) rs"
    by (rule attemptSucceeds_cong [OF assms])
  have c: "map (errorOf net h1) (filter (attemptFails net mx h) rs)
         = map (errorOf net h) (filter (attemptFails net mx h) rs)"
    by (rule errorOf_cong [OF assms])
  show ?thesis unfolding resultAfter_def a b c by simp
qed

lemma heapAfter_Cons:
  assumes "r \<notin> set rs"
  shows "heapAfter net mx rs (heapAfter net mx [r] h) = heapAfter net mx (r # rs) h"
proof
  fix x
  show "heapAfter net mx rs (heapAfter net mx [r] h) x = heapAfter net mx (r # rs) h x"
  proof (cases "x = r")
    case True
    then show ?thesis using assms by (simp add: heapAfter_def)
  next
    case False
    then show ?thesis by (simp add: heapAfter_def attemptFails_def)
  qed
qed

lemma syncLoop_char:
  assumes "distinct rs"
  shows "syncLoop net rs (st, res) =
     (st\<lparr>heap := heapAfter net (maxRetries st) rs (heap st),
         syncQueue := filter (\<lambda>i. item_id (heap st i) \<notin> set (evictedIds net (maxRetries st) (heap st) rs))
                        (syncQueue st)\<rparr>,
      resultAfter net (maxRetries st) rs (heap st) res)"
  using assms
proof (induction rs arbitrary: st res)
  case Nil
  then show ?case by (simp add: heapAfter_def resultAfter_def evictedIds_def)
next
  case (Cons r rs)
  let ?mx = "maxRetries st"
  let ?h = "heap st"
  let ?h1 = "heapAfter net ?mx [r] ?h"
  let ?q1 = "filter (\<lambda>i. item_id (?h i) \<notin> set (evictedIds net ?mx ?h [r])) (syncQueue st)"
  let ?st1 = "st\<lparr>heap := ?h1, syncQueue := ?q1\<rparr>"
  let ?res1 = "resultAfter net ?mx [r] ?h res"
  have step: "syncStep r (net r) (st, res) = (?st1, ?res1)"
    by (rule syncStep_char)
  have rnot: "r \<notin> set rs" and drs: "distinct rs" using Cons.prems by simp_all
  have agree: "\<forall>x \<in> set rs. ?h1 x = ?h x"
    using rnot by (auto simp: heapAfter_def)
  have "syncLoop net (r # rs) (st, res) = syncLoop net rs (?st1, ?res1)"
    by (simp only: syncLoop.simps step)
  also have "\<dots> = (?st1\<lparr>heap := heapAfter net (maxRetries ?st1) rs (heap ?st1),
         syncQueue := filter (\<lambda>i. item_id (heap ?st1 i) \<notin> set (evictedIds net (maxRetries ?st1) (heap ?st1) rs))
                        (syncQueue ?st1)\<rparr>,
      resultAfter net (maxRetries ?st1) rs (heap ?st1) ?res1)"
    by (rule Cons.IH [OF drs])
  also have "\<dots> = (st\<lparr>heap := heapAfter net ?mx (r # rs) ?h,
         syncQueue := filter (\<lambda>i. item_id (?h i) \<notin> set (evictedIds net ?mx ?h (r # rs))) (syncQueue st)\<rparr>,
      resultAfter net ?mx (r # rs) ?h res)"
  proof -
    have a: "heapAfter net ?mx rs ?h1 = heapAfter net ?mx (r # rs) ?h"
      by (rule heapAfter_Cons [OF rnot])
    have b: "resultAfter net ?mx rs ?h1 ?res1 = resultAfter net ?mx (r # rs) ?h res"
      by (rule resultAfter_Cons [OF agree])
    have c: "evictedIds net ?mx ?h1 rs = evictedIds net ?mx ?h rs"
      by (rule evictedIds_cong [OF agree])
    have d: "filter (\<lambda>i. item_id (?h1 i) \<notin> set (evictedIds net ?mx ?h rs)) ?q1
           = filter (\<lambda>i. item_id (?h i) \<notin> set (evictedIds net ?mx ?h (r # rs))) (syncQueue st)"
      unfolding heapAfter_ids evictedIds_Cons [of net ?mx ?h r rs] by (auto intro: filter_cong)
    have e: "maxRetries ?st1 = ?mx" "heap ?st1 = ?h1" "syncQueue ?st1 = ?q1" by simp_all
    have f: "?st1\<lparr>heap := heapAfter net ?mx (r # rs) ?h,
         syncQueue := filter (\<lambda>i. item_id (?h i) \<notin> set (evictedIds net ?mx ?h (r # rs))) (syncQueue st)\<rparr>
       = st\<lparr>heap := heapAfter net ?mx (r # rs) ?h,
         syncQueue := filter (\<lambda>i. item_id (?h i) \<notin> set (evictedIds net ?mx ?h (r # rs))) (syncQueue st)\<rparr>"
      by simp
    show ?thesis by (simp only: e a b c d f)
  qed
  finally show ?case .
qed

subsection \<open>A drain pass that runs\<close>

lemma syncAll_runs:
  assumes on: "truthy (isOnline st)" and idle: "\<not> syncInProgress st"
      and d: "distinct (syncQueue st)"
  shows "syncAll st env =
     (case statusWrite env of
        IoFails msg \<Rightarrow> (passSaved env st, Inl (Error msg))
      | IoOk \<Rightarrow>
          (notifyListeners
             ((passSaved env st)\<lparr>status_slot := Some (now env, passResult env st),
                                 syncInProgress := False\<rparr>)
             (SyncCompleted (passResult env st)),
           Inr (Results (passResult env st))))"
proof -
  let ?st2 = "notifyListeners (st\<lparr>syncInProgress := True\<rparr>) SyncStarted"
  let ?res0 = "\<lparr>total = length (syncQueue st), succeeded = 0, failed = 0, errors = []\<rparr>"
  have q2: "syncQueue ?st2 = syncQueue st" "heap ?st2 = heap st" "maxRetries ?st2 = maxRetries st"
    by (simp_all add: notifyListeners_def)
  have loop: "syncLoop (deliver env) (syncQueue st) (?st2, ?res0) =
      (?st2\<lparr>heap := passHeap env st, syncQueue := passQueue env st\<rparr>, passResult env st)"
    using syncLoop_char [OF d, of "deliver env" ?st2 ?res0]
    by (simp only: q2 passHeap_def passQueue_def passResult_def)
  have st2: "?st2\<lparr>heap := passHeap env st, syncQueue := passQueue env st\<rparr> =
      st\<lparr>syncInProgress := True,
           delivered := delivered st @ map (\<lambda>l. (l, SyncStarted)) (listeners st),
           heap := passHeap env st, syncQueue := passQueue env st\<rparr>"
    by (simp add: notifyListeners_def)
  show ?thesis
    using on idle
    by (simp add: syncAll_def Let_def q2 loop st2 passSaved_def split: io.split)
qed

lemma passSaved_fields:
  "syncQueue (passSaved env st) = passQueue env st"
  "heap (passSaved env st) = passHeap env st"
  "isOnline (passSaved env st) = isOnline st"
  "maxRetries (passSaved env st) = maxRetries st"
  "listeners (passSaved env st) = listeners st"
  "next_ref (passSaved env st) = next_ref st"
  "netHandlers (passSaved env st) = netHandlers st"
  "syncInProgress (passSaved env st) = True"
  "status_slot (passSaved env st) = status_slot st"
  "delivered (passSaved env st) = delivered st @ map (\<lambda>l. (l, SyncStarted)) (listeners st)"
  "queue_slot (passSaved env st) =
     (case queueWrite env of IoOk \<Rightarrow> Stored (map (passHeap env st) (passQueue env st))
      | IoFails msg \<Rightarrow> queue_slot st)"
  by (simp_all add: passSaved_def saveQueue_def split: io.split)

lemma syncAll_fields:
  assumes "truthy (isOnline st)" and "\<not> syncInProgress st" and "distinct (syncQueue st)"
  shows "syncQueue (fst (syncAll st env)) = passQueue env st"
    and "heap (fst (syncAll st env)) = passHeap env st"
    and "isOnline (fst (syncAll st env)) = isOnline st"
    and "maxRetries (fst (syncAll st env)) = maxRetries st"
    and "listeners (fst (syncAll st env)) = listeners st"
    and "next_ref (fst (syncAll st env)) = next_ref st"
    and "netHandlers (fst (syncAll st env)) = netHandlers st"
    and "syncInProgress (fst (syncAll st env)) = (statusWrite env \<noteq> IoOk)"
    and "queue_slot (fst (syncAll st env)) =
           (case queueWrite env of IoOk \<Rightarrow> Stored (map (passHeap env st) (passQueue env st))
            | IoFails msg \<Rightarrow> queue_slot st)"
    and "snd (syncAll st env) =
           (case statusWrite env of IoOk \<Rightarrow> Inr (Results (passResult env st))
            | IoFails msg \<Rightarrow> Inl (Error msg))"
    and "delivered (fst (syncAll st env)) =
           delivered st @ map (\<lambda>l. (l, SyncStarted)) (listeners st) @
           (case statusWrite env of
              IoOk \<Rightarrow> map (\<lambda>l. (l, SyncCompleted (passResult env st))) (listeners st)
            | IoFails msg \<Rightarrow> [])"
  unfolding syncAll_runs [OF assms]
  by (simp_all add: passSaved_fields notifyListeners_def split: io.split)



lemma syncStep_settle:
  "syncStep r oc sr =
     (if eligible (maxRetries (fst sr)) (heap (fst sr) r) then settleDelivery r oc sr else sr)"
  by (simp add: syncStep_def settleDelivery_def Let_def)

lemma saveQueue_settled: "saveQueue st w = saveSettled w (map (heap st) (syncQueue st)) st"
  by (simp add: saveQueue_def saveSettled_def)

lemma runPass_advance:
  "runPass env (advance rs res st) st =
     statusSettled (statusWrite env) (now env) (snd (syncLoop (deliver env) rs (st, res)))
       (saveQueue (fst (syncLoop (deliver env) rs (st, res))) (queueWrite env))"
proof (induction rs arbitrary: st res)
  case Nil
  show ?case by (simp add: saveQueue_settled)
next
  case (Cons r rs)
  show ?case
  proof (cases "eligible (maxRetries st) (heap st r)")
    case True
    let ?sr = "settleDelivery r (deliver env r) (st, res)"
    have s: "syncStep r (deliver env r) (st, res) = ?sr"
      using True by (simp add: syncStep_settle)
    have "runPass env (advance (r # rs) res st) st = runPass env (advance rs (snd ?sr) (fst ?sr)) (fst ?sr)"
      using True by simp
    also have "\<dots> = statusSettled (statusWrite env) (now env)
        (snd (syncLoop (deliver env) rs (fst ?sr, snd ?sr)))
        (saveQueue (fst (syncLoop (deliver env) rs (fst ?sr, snd ?sr))) (queueWrite env))"
      by (rule Cons.IH)
    finally show ?thesis by (simp add: s)
  next
    case False
    then have s: "syncStep r (deliver env r) (st, res) = (st, res)"
      by (simp add: syncStep_settle)
    have "runPass env (advance (r # rs) res st) st = runPass env (advance rs res st) st"
      using False by simp
    then show ?thesis using Cons.IH [of res st] by (simp add: s)
  qed
qed

text \<open>The method \<^verbatim>\<open>syncAll\<close> of the previous sections is the call followed by the
  settling of its own awaits, with nothing in between.\<close>

lemma syncAll_uninterrupted:
  "syncAll st env =
     (case snd (syncAllBegin st) of
        Inl refused \<Rightarrow> (fst (syncAllBegin st), Inr refused)
      | Inr p \<Rightarrow> runPass env p (fst (syncAllBegin st)))"
proof (cases "\<not> truthy (isOnline st) \<or> syncInProgress st")
  case True
  then show ?thesis by (simp add: syncAll_def syncAllBegin_def)
next
  case False
  let ?st2 = "notifyListeners (st\<lparr>syncInProgress := True\<rparr>) SyncStarted"
  let ?res0 = "\<lparr>total = length (syncQueue ?st2), succeeded = 0, failed = 0, errors = []\<rparr>"
  have b: "syncAllBegin st = (?st2, Inr (advance (syncQueue ?st2) ?res0 ?st2))"
    using False by (simp add: syncAllBegin_def Let_def)
  have "syncAll st env =
      statusSettled (statusWrite env) (now env)
        (snd (syncLoop (deliver env) (syncQueue ?st2) (?st2, ?res0)))
        (saveQueue (fst (syncLoop (deliver env) (syncQueue ?st2) (?st2, ?res0))) (queueWrite env))"
    using False by (simp add: syncAll_def Let_def statusSettled_def split: io.split)
  also have "\<dots> = runPass env (advance (syncQueue ?st2) ?res0 ?st2) ?st2"
    by (rule runPass_advance [symmetric])
  finally show ?thesis by (simp add: b)
qed


lemma twoQueued_fields:
  "isOnline twoQueued = Some True" "syncInProgress twoQueued = False"
  "syncQueue twoQueued = [0, 1]" "maxRetries twoQueued = 3"
  "heap twoQueued = (\<lambda>r. sampleItem (if r = 0 then 1 else 2))"
  "listeners twoQueued = [7]" "delivered twoQueued = []" "queue_slot twoQueued = Absent"
  by (simp_all add: twoQueued_def freshManager_def constructor_def)







subsection \<open>What a pass keeps, and repeated passes\<close>

















subsection \<open>What every step keeps\<close>

text \<open>Every step of the overlapping model keeps the world in order: whatever the
  application calls, whatever the platform answers and wherever the calls are suspended,
  the queue holds no object twice and only well-formed items, and only well-formed items
  are stored.\<close>

lemma wellFormed_eligible: "wellFormed mx it \<Longrightarrow> eligible mx it"
  by (auto simp: wellFormed_def eligible_def)

lemma wellFormed_bound: "wellFormed mx it \<Longrightarrow> retries it \<le> mx"
  by (auto simp: wellFormed_def)

lemma queueOk_cong:
  assumes "syncQueue st' = syncQueue st" "next_ref st' = next_ref st"
      and "maxRetries st' = maxRetries st" "heap st' = heap st" "queue_slot st' = queue_slot st"
  shows "queueOk st' = queueOk st"
  using assms by (simp add: queueOk_def)

lemma queueOk_notifyListeners: "queueOk (notifyListeners st e) = queueOk st"
  by (rule queueOk_cong) (simp_all add: notifyListeners_def)

lemma queueOk_dropId: "queueOk st \<Longrightarrow> queueOk (dropId st x)"
  by (simp add: queueOk_def dropId_def list_all_iff)

lemma queueOk_pushItem:
  assumes "queueOk st" and "wellFormed (maxRetries st) it"
  shows "queueOk (pushItem st it)"
proof -
  have lt: "\<forall>r \<in> set (syncQueue st). r < next_ref st \<and> wellFormed (maxRetries st) (heap st r)"
    using assms(1) by (simp add: queueOk_def list_all_iff)
  then have fresh: "next_ref st \<notin> set (syncQueue st)" by auto
  have d: "distinct (syncQueue st @ [next_ref st])"
    using assms(1) fresh by (simp add: queueOk_def)
  have a: "\<forall>r \<in> set (syncQueue st @ [next_ref st]).
      r < Suc (next_ref st) \<and> wellFormed (maxRetries st) (((heap st)(next_ref st := it)) r)"
  proof
    fix r assume "r \<in> set (syncQueue st @ [next_ref st])"
    then have "r = next_ref st \<or> r \<in> set (syncQueue st)" by auto
    then show "r < Suc (next_ref st) \<and> wellFormed (maxRetries st) (((heap st)(next_ref st := it)) r)"
    proof
      assume "r = next_ref st"
      then show ?thesis using assms(2) by simp
    next
      assume r: "r \<in> set (syncQueue st)"
      then have "r \<noteq> next_ref st" using fresh by auto
      then show ?thesis using lt r by auto
    qed
  qed
  have s: "slotOk (maxRetries st) (queue_slot st)" using assms(1) by (simp add: queueOk_def)
  show ?thesis
    unfolding queueOk_def pushItem_def using d a s by (simp add: list_all_iff)
qed

lemma queueOk_saveSettled:
  assumes "queueOk st" and "list_all (wellFormed (maxRetries st)) items"
  shows "queueOk (saveSettled w items st)"
  using assms by (cases w) (simp_all add: queueOk_def saveSettled_def slotOk_def)

lemma queueOk_items:
  "queueOk st \<Longrightarrow> list_all (wellFormed (maxRetries st)) (map (heap st) (syncQueue st))"
  by (simp add: queueOk_def list_all_iff)

lemma queueOk_allocate:
  assumes "queueOk st" and "list_all (wellFormed (maxRetries st)) items"
  shows "queueOk (allocate st items)"
proof -
  have wf: "\<forall>it \<in> set items. wellFormed (maxRetries st) it"
    using assms(2) by (simp add: list_all_iff)
  have a: "\<forall>r \<in> set [next_ref st ..< next_ref st + length items].
      r < next_ref st + length items \<and>
      wellFormed (maxRetries st)
        (if next_ref st \<le> r \<and> r < next_ref st + length items
         then items ! (r - next_ref st) else heap st r)"
  proof
    fix r assume "r \<in> set [next_ref st ..< next_ref st + length items]"
    then have r: "next_ref st \<le> r" "r < next_ref st + length items" by simp_all
    then have "r - next_ref st < length items" by simp
    then have "items ! (r - next_ref st) \<in> set items" by (rule nth_mem)
    then have "wellFormed (maxRetries st) (items ! (r - next_ref st))" using wf by blast
    then show "r < next_ref st + length items \<and>
      wellFormed (maxRetries st)
        (if next_ref st \<le> r \<and> r < next_ref st + length items
         then items ! (r - next_ref st) else heap st r)"
      using r by simp
  qed
  have s: "slotOk (maxRetries st) (queue_slot st)" using assms(1) by (simp add: queueOk_def)
  show ?thesis
    unfolding queueOk_def allocate_def using a s by (simp add: list_all_iff)
qed

lemma queueOk_emptied:
  assumes "queueOk st"
  shows "queueOk (st\<lparr>console := c, syncQueue := []\<rparr>)"
  using assms by (simp add: queueOk_def)

lemma queueOk_loadQueue:
  assumes "queueOk st"
  shows "queueOk (loadQueue st rd)"
proof (cases rd)
  case (IoFails msg)
  then show ?thesis using queueOk_emptied [OF assms] by (simp add: loadQueue_def)
next
  case IoOk
  show ?thesis
  proof (cases "queue_slot st")
    case Absent
    then show ?thesis using IoOk assms by (simp add: loadQueue_def)
  next
    case Unparsable
    then show ?thesis using IoOk queueOk_emptied [OF assms] by (simp add: loadQueue_def)
  next
    case (Stored items)
    have "slotOk (maxRetries st) (queue_slot st)" using assms by (simp add: queueOk_def)
    then have "list_all (wellFormed (maxRetries st)) items" using Stored by (simp add: slotOk_def)
    then have "queueOk (allocate st items)" using assms by (rule queueOk_allocate [rotated])
    then show ?thesis using IoOk Stored by (simp add: loadQueue_def)
  qed
qed

lemma maxRetries_loadQueue: "maxRetries (loadQueue st rd) = maxRetries st"
  by (simp add: loadQueue_def allocate_def split: io.split slot.split)

lemma maxRetries_settleDelivery: "maxRetries (fst (settleDelivery r oc (st, res))) = maxRetries st"
  by (simp add: settleDelivery_def Let_def dropId_def split: outcome.split)

lemma queueOk_failed:
  assumes ok: "queueOk st" and lt: "Suc (retries (heap st r)) < maxRetries st"
  shows "queueOk (st\<lparr>heap := (heap st)(r := markFailed msg (heap st r))\<rparr>)"
proof -
  have wf: "wellFormed (maxRetries st) (markFailed msg (heap st r))"
    using lt by (simp add: wellFormed_def markFailed_def)
  have a: "\<forall>x \<in> set (syncQueue st).
      x < next_ref st \<and> wellFormed (maxRetries st) (((heap st)(r := markFailed msg (heap st r))) x)"
  proof
    fix x assume x: "x \<in> set (syncQueue st)"
    have "x < next_ref st \<and> wellFormed (maxRetries st) (heap st x)"
      using ok x by (simp add: queueOk_def list_all_iff)
    then show "x < next_ref st \<and>
        wellFormed (maxRetries st) (((heap st)(r := markFailed msg (heap st r))) x)"
      using wf by simp
  qed
  show ?thesis
    unfolding queueOk_def using ok a by (simp add: queueOk_def list_all_iff)
qed

lemma queueOk_evicted:
  assumes ok: "queueOk st"
  shows "queueOk (dropId (st\<lparr>heap := (heap st)(r := markFailed msg (heap st r))\<rparr>)
                   (item_id (heap st r)))"
proof -
  let ?h = "(heap st)(r := markFailed msg (heap st r))"
  let ?q = "filter (\<lambda>i. item_id (?h i) \<noteq> item_id (heap st r)) (syncQueue st)"
  have a: "\<forall>x \<in> set ?q. x < next_ref st \<and> wellFormed (maxRetries st) (?h x)"
  proof
    fix x assume x: "x \<in> set ?q"
    then have m: "x \<in> set (syncQueue st)" and n: "item_id (?h x) \<noteq> item_id (heap st r)"
      by simp_all
    have "x \<noteq> r"
    proof
      assume "x = r"
      then show False using n by (simp add: markFailed_def)
    qed
    moreover have "x < next_ref st \<and> wellFormed (maxRetries st) (heap st x)"
      using ok m by (simp add: queueOk_def list_all_iff)
    ultimately show "x < next_ref st \<and> wellFormed (maxRetries st) (?h x)" by simp
  qed
  have d: "distinct ?q" using ok by (simp add: queueOk_def)
  have s: "slotOk (maxRetries st) (queue_slot st)" using ok by (simp add: queueOk_def)
  show ?thesis
    unfolding queueOk_def dropId_def using a d s by (simp add: list_all_iff)
qed

lemma queueOk_settleDelivery:
  assumes ok: "queueOk st"
  shows "queueOk (fst (settleDelivery r oc (st, res)))"
proof (cases oc)
  case Delivered
  then show ?thesis using queueOk_dropId [OF ok] by (simp add: settleDelivery_def)
next
  case (Fails msg)
  show ?thesis
  proof (cases "maxRetries st \<le> Suc (retries (heap st r))")
    case True
    then show ?thesis
      using Fails queueOk_evicted [OF ok, of r msg]
      by (simp add: settleDelivery_def Let_def markFailed_def)
  next
    case False
    then have "Suc (retries (heap st r)) < maxRetries st" by simp
    then have "queueOk (st\<lparr>heap := (heap st)(r := markFailed msg (heap st r))\<rparr>)"
      using ok by (rule queueOk_failed [rotated])
    then show ?thesis
      using Fails False by (simp add: settleDelivery_def Let_def markFailed_def)
  qed
qed

lemma held_advance:
  "queueOk st \<Longrightarrow> list_all (wellFormed (maxRetries st)) (heldItems (InSyncAll (advance rs res st)))"
  by (induction rs) (simp_all add: queueOk_items)

lemma syncAllBegin_fields:
  "maxRetries (fst (syncAllBegin st)) = maxRetries st"
  "queueOk (fst (syncAllBegin st)) = queueOk st"
proof -
  show "maxRetries (fst (syncAllBegin st)) = maxRetries st"
    by (simp add: syncAllBegin_def Let_def notifyListeners_def)
  show "queueOk (fst (syncAllBegin st)) = queueOk st"
    by (rule queueOk_cong) (simp_all add: syncAllBegin_def Let_def notifyListeners_def)
qed

lemma syncAllBegin_held:
  assumes "queueOk st" and "snd (syncAllBegin st) = Inr p"
  shows "list_all (wellFormed (maxRetries st)) (heldItems (InSyncAll p))"
proof (cases "\<not> truthy (isOnline st) \<or> syncInProgress st")
  case True
  then show ?thesis using assms(2) by (simp add: syncAllBegin_def)
next
  case False
  let ?st2 = "notifyListeners (st\<lparr>syncInProgress := True\<rparr>) SyncStarted"
  have q: "queueOk ?st2"
    using assms(1) by (simp add: queueOk_notifyListeners) (simp add: queueOk_def)
  have m: "maxRetries ?st2 = maxRetries st" by (simp add: notifyListeners_def)
  have "p = advance (syncQueue ?st2)
        \<lparr>total = length (syncQueue ?st2), succeeded = 0, failed = 0, errors = []\<rparr> ?st2"
    using False assms(2) by (simp add: syncAllBegin_def Let_def)
  then show ?thesis using held_advance [OF q] m by simp
qed

lemma fireSyncAll_fields:
  "maxRetries (fst (fireSyncAll st)) = maxRetries st"
  "queueOk (fst (fireSyncAll st)) = queueOk st"
  by (simp_all add: fireSyncAll_def syncAllBegin_fields split: sum.split)

lemma fireSyncAll_held:
  assumes "queueOk st" and "snd (fireSyncAll st) = Some p"
  shows "list_all (wellFormed (maxRetries st)) (heldItems (InSyncAll p))"
proof (cases "snd (syncAllBegin st)")
  case (Inl a)
  then show ?thesis using assms(2) by (simp add: fireSyncAll_def)
next
  case (Inr q)
  then have "q = p" using assms(2) by (simp add: fireSyncAll_def)
  then show ?thesis using syncAllBegin_held [OF assms(1)] Inr by simp
qed

lemma statusSettled_fields:
  "maxRetries (fst (statusSettled w t res st)) = maxRetries st"
  "queueOk (fst (statusSettled w t res st)) = queueOk st"
proof -
  show "maxRetries (fst (statusSettled w t res st)) = maxRetries st"
    by (cases w) (simp_all add: statusSettled_def Let_def notifyListeners_def)
  show "queueOk (fst (statusSettled w t res st)) = queueOk st"
    by (rule queueOk_cong; cases w) (simp_all add: statusSettled_def Let_def notifyListeners_def)
qed

lemma maxRetries_saveSettled: "maxRetries (saveSettled w items st) = maxRetries st"
  by (cases w) (simp_all add: saveSettled_def)

text \<open>A suspended call that goes on keeps the manager in order, does not change
  \<^verbatim>\<open>maxRetries\<close>, and hands only well-formed items to the storage.\<close>

lemma resumePass_keeps:
  assumes ok: "queueOk st"
      and held: "list_all (wellFormed (maxRetries st)) (heldItems (InSyncAll p))"
      and r: "resumePass p a clock st = Some (st', po)"
  shows "queueOk st' \<and> maxRetries st' = maxRetries st \<and>
         (\<forall>p'. po = Some p' \<longrightarrow> list_all (wellFormed (maxRetries st)) (heldItems (InSyncAll p')))"
proof (cases p)
  case (AwaitDelivery x rs res)
  then obtain oc where a: "a = Net oc" using r by (cases a) simp_all
  let ?sr = "settleDelivery x oc (st, res)"
  have st': "st' = fst ?sr" and po: "po = Some (advance rs (snd ?sr) (fst ?sr))"
    using r AwaitDelivery a by (auto simp: Let_def)
  have q: "queueOk (fst ?sr)" using ok by (rule queueOk_settleDelivery)
  have m: "maxRetries (fst ?sr) = maxRetries st" by (rule maxRetries_settleDelivery)
  have "list_all (wellFormed (maxRetries st)) (heldItems (InSyncAll (advance rs (snd ?sr) (fst ?sr))))"
    using held_advance [OF q, of rs "snd ?sr"] m by simp
  then show ?thesis using st' po q m by simp
next
  case (AwaitQueueWrite items res)
  then obtain w where a: "a = Wrote w" using r by (cases a) simp_all
  have st': "st' = saveSettled w items st" and po: "po = Some (AwaitStatusWrite clock res)"
    using r AwaitQueueWrite a by simp_all
  have "list_all (wellFormed (maxRetries st)) items" using held AwaitQueueWrite by simp
  then have "queueOk (saveSettled w items st)" using ok by (rule queueOk_saveSettled [rotated])
  then show ?thesis using st' po by (simp add: maxRetries_saveSettled)
next
  case (AwaitStatusWrite t res)
  then obtain w where a: "a = Wrote w" using r by (cases a) simp_all
  have st': "st' = fst (statusSettled w t res st)" and po: "po = None"
    using r AwaitStatusWrite a by simp_all
  show ?thesis using st' po ok by (simp add: statusSettled_fields)
qed

lemma resumeCall_keeps:
  assumes ok: "queueOk st"
      and held: "list_all (wellFormed (maxRetries st)) (heldItems t)"
      and r: "resumeCall t a clock st = Some (st', topt)"
  shows "queueOk st' \<and> maxRetries st' = maxRetries st \<and>
         (\<forall>t'. topt = Some t' \<longrightarrow> list_all (wellFormed (maxRetries st)) (heldItems t'))"
proof (cases t)
  case (InSyncAll p)
  then obtain mp where mp: "resumePass p a clock st = Some mp"
    and e: "st' = fst mp" "topt = map_option InSyncAll (snd mp)"
    using r by (cases "resumePass p a clock st") auto
  have "resumePass p a clock st = Some (fst mp, snd mp)" using mp by simp
  then have k: "queueOk (fst mp) \<and> maxRetries (fst mp) = maxRetries st \<and>
         (\<forall>p'. snd mp = Some p' \<longrightarrow> list_all (wellFormed (maxRetries st)) (heldItems (InSyncAll p')))"
    using ok held InSyncAll by (intro resumePass_keeps [of st p a clock]) simp_all
  show ?thesis
  proof (intro conjI allI impI)
    show "queueOk st'" using k e by simp
    show "maxRetries st' = maxRetries st" using k e by simp
    fix t' assume "topt = Some t'"
    then obtain p' where "snd mp = Some p'" "t' = InSyncAll p'" using e by auto
    then show "list_all (wellFormed (maxRetries st)) (heldItems t')" using k by simp
  qed
next
  case (InAddToQueue items)
  then obtain w where a: "a = Wrote w" using r by (cases a) simp_all
  let ?st2 = "saveSettled w items st"
  let ?mp = "if truthy (isOnline ?st2) then fireSyncAll ?st2 else (?st2, None)"
  have e: "st' = fst ?mp" "topt = map_option InSyncAll (snd ?mp)"
    using r InAddToQueue a by (simp_all add: Let_def)
  have "list_all (wellFormed (maxRetries st)) items" using held InAddToQueue by simp
  then have q2: "queueOk ?st2" using ok by (rule queueOk_saveSettled [rotated])
  have m2: "maxRetries ?st2 = maxRetries st" by (rule maxRetries_saveSettled)
  show ?thesis
  proof (cases "truthy (isOnline ?st2)")
    case False
    then show ?thesis using e q2 m2 by simp
  next
    case True
    then have e': "st' = fst (fireSyncAll ?st2)" "topt = map_option InSyncAll (snd (fireSyncAll ?st2))"
      using e by simp_all
    show ?thesis
    proof (intro conjI allI impI)
      show "queueOk st'" using e' q2 by (simp add: fireSyncAll_fields)
      show "maxRetries st' = maxRetries st" using e' m2 by (simp add: fireSyncAll_fields)
      fix t' assume "topt = Some t'"
      then obtain p' where p': "snd (fireSyncAll ?st2) = Some p'" "t' = InSyncAll p'"
        using e' by auto
      show "list_all (wellFormed (maxRetries st)) (heldItems t')"
        using fireSyncAll_held [OF q2 p'(1)] p'(2) m2 by simp
    qed
  qed
next
  case (InSaveQueue items)
  then obtain w where a: "a = Wrote w" using r by (cases a) simp_all
  have e: "st' = saveSettled w items st" "topt = None"
    using r InSaveQueue a by simp_all
  have "list_all (wellFormed (maxRetries st)) items" using held InSaveQueue by simp
  then have "queueOk (saveSettled w items st)" using ok by (rule queueOk_saveSettled [rotated])
  then show ?thesis using e by (simp add: maxRetries_saveSettled)
next
  case InLoadQueue
  then obtain rd where a: "a = Read rd" using r by (cases a) simp_all
  have e: "st' = (loadQueue st rd)\<lparr>netHandlers := Suc (netHandlers (loadQueue st rd))\<rparr>"
    "topt = Some InFetch"
    using r InLoadQueue a by (simp_all add: Let_def)
  have "queueOk (loadQueue st rd)" using ok by (rule queueOk_loadQueue)
  then have "queueOk st'" unfolding e by (simp add: queueOk_def)
  then show ?thesis using e by (simp add: maxRetries_loadQueue)
next
  case InFetch
  then obtain p where a: "a = Probe p" using r by (cases a) simp_all
  have e: "st' = (case p of ProbeFails msg \<Rightarrow> st
             | Probed ns \<Rightarrow> st\<lparr>isOnline := js_and (isConnected ns) (isInternetReachable ns)\<rparr>)"
    "topt = None"
    using r InFetch a by simp_all
  have "queueOk st'" unfolding e using ok by (cases p) (simp_all add: queueOk_def)
  moreover have "maxRetries st' = maxRetries st" unfolding e by (cases p) simp_all
  ultimately show ?thesis using e by simp
qed

lemma worldOk_started:
  assumes "queueOk (fst mp)"
      and "list_all (\<lambda>t. list_all (wellFormed (maxRetries (fst mp))) (heldItems t)) ts"
      and "\<forall>p. snd mp = Some p \<longrightarrow> list_all (wellFormed (maxRetries (fst mp))) (heldItems (InSyncAll p))"
  shows "worldOk (started mp ts)"
  using assms by (cases "snd mp") (simp_all add: worldOk_def started_def)

lemma netListener_keeps:
  assumes ok: "queueOk st"
  shows "queueOk (fst (netListener st ns)) \<and> maxRetries (fst (netListener st ns)) = maxRetries st \<and>
     (\<forall>p. snd (netListener st ns) = Some p \<longrightarrow>
        list_all (wellFormed (maxRetries st)) (heldItems (InSyncAll p)))"
proof -
  let ?v = "js_and (isConnected ns) (isInternetReachable ns)"
  let ?st2 = "notifyListeners (st\<lparr>isOnline := ?v\<rparr>) (Online ?v)"
  have q2: "queueOk ?st2"
    using ok by (simp add: queueOk_notifyListeners) (simp add: queueOk_def)
  have m2: "maxRetries ?st2 = maxRetries st" by (simp add: notifyListeners_def)
  show ?thesis
  proof (cases "\<not> truthy (isOnline st) \<and> truthy ?v")
    case True
    then have e: "netListener st ns = fireSyncAll ?st2"
      by (simp add: netListener_def Let_def notifyListeners_def)
    show ?thesis unfolding e
      using q2 m2 fireSyncAll_held [OF q2] by (simp add: fireSyncAll_fields)
  next
    case False
    then have e: "netListener st ns = (?st2, None)"
      by (auto simp: netListener_def Let_def notifyListeners_def)
    show ?thesis unfolding e using q2 m2 by simp
  qed
qed

lemma step_keeps:
  assumes ok: "worldOk w" and s: "step w c = Some w'"
  shows "worldOk w' \<and> maxRetries (mgr w') = maxRetries (mgr w)"
proof -
  let ?st = "mgr w" and ?ts = "suspended w"
  have q: "queueOk ?st" using ok by (simp add: worldOk_def)
  have h: "list_all (\<lambda>t. list_all (wellFormed (maxRetries ?st)) (heldItems t)) ?ts"
    using ok by (simp add: worldOk_def)
  show ?thesis
  proof (cases c)
    case (CallSubscribe l)
    then have e: "w' = \<lparr>mgr = subscribe ?st l, suspended = ?ts\<rparr>" using s by (simp add: step_def)
    have "queueOk (subscribe ?st l)" using q by (simp add: queueOk_def subscribe_def)
    then show ?thesis unfolding e using h by (simp add: worldOk_def subscribe_def)
  next
    case (CallUnsubscribe l)
    then have e: "w' = \<lparr>mgr = unsubscribe ?st l, suspended = ?ts\<rparr>" using s by (simp add: step_def)
    have "queueOk (unsubscribe ?st l)" using q by (simp add: queueOk_def unsubscribe_def)
    then show ?thesis unfolding e using h by (simp add: worldOk_def unsubscribe_def)
  next
    case CallInitialize
    then have e: "w' = \<lparr>mgr = ?st, suspended = ?ts @ [InLoadQueue]\<rparr>" using s by (simp add: step_def)
    show ?thesis unfolding e using q h by (simp add: worldOk_def)
  next
    case (CallAddToQueue opn i t)
    let ?st1 = "pushItem ?st (newItem opn i t)"
    have e: "w' = \<lparr>mgr = ?st1, suspended = ?ts @ [InAddToQueue (map (heap ?st1) (syncQueue ?st1))]\<rparr>"
      using s CallAddToQueue by (simp add: step_def Let_def)
    have "wellFormed (maxRetries ?st) (newItem opn i t)" by (simp add: wellFormed_def newItem_def)
    then have q1: "queueOk ?st1" using q by (rule queueOk_pushItem [rotated])
    have m1: "maxRetries ?st1 = maxRetries ?st" by (simp add: pushItem_def)
    show ?thesis unfolding e using q1 m1 h queueOk_items [OF q1] by (simp add: worldOk_def)
  next
    case (CallRemoveQueueItem x)
    let ?st1 = "dropId ?st x"
    have e: "w' = \<lparr>mgr = ?st1, suspended = ?ts @ [InSaveQueue (map (heap ?st1) (syncQueue ?st1))]\<rparr>"
      using s CallRemoveQueueItem by (simp add: step_def Let_def)
    have q1: "queueOk ?st1" using q by (rule queueOk_dropId)
    have m1: "maxRetries ?st1 = maxRetries ?st" by (simp add: dropId_def)
    show ?thesis unfolding e using q1 m1 h queueOk_items [OF q1] by (simp add: worldOk_def)
  next
    case CallClearQueue
    have e: "w' = \<lparr>mgr = ?st\<lparr>syncQueue := []\<rparr>, suspended = ?ts @ [InSaveQueue []]\<rparr>"
      using s CallClearQueue by (simp add: step_def)
    have "queueOk (?st\<lparr>syncQueue := []\<rparr>)" using q by (simp add: queueOk_def)
    then show ?thesis unfolding e using h by (simp add: worldOk_def)
  next
    case CallSyncAll
    have e: "w' = started (fireSyncAll ?st) ?ts" using s CallSyncAll by (simp add: step_def)
    have "worldOk (started (fireSyncAll ?st) ?ts)"
      using q h fireSyncAll_held [OF q]
      by (intro worldOk_started) (simp_all add: fireSyncAll_fields)
    then show ?thesis unfolding e by (simp add: started_def fireSyncAll_fields)
  next
    case CallForceSync
    show ?thesis
    proof (cases "truthy (isOnline ?st)")
      case False
      then have "w' = w" using s CallForceSync by (simp add: step_def)
      then show ?thesis using ok by simp
    next
      case True
      then have e: "w' = started (fireSyncAll ?st) ?ts" using s CallForceSync by (simp add: step_def)
      have "worldOk (started (fireSyncAll ?st) ?ts)"
        using q h fireSyncAll_held [OF q]
        by (intro worldOk_started) (simp_all add: fireSyncAll_fields)
      then show ?thesis unfolding e by (simp add: started_def fireSyncAll_fields)
    qed
  next
    case (NetChange ns)
    then have e: "w' = started (netListener ?st ns) ?ts"
      using s by (simp add: step_def Let_def split: if_splits)
    note k = netListener_keeps [OF q, of ns]
    have "worldOk (started (netListener ?st ns) ?ts)"
      using k h by (intro worldOk_started) simp_all
    then show ?thesis unfolding e using k by (simp add: started_def)
  next
    case (Settle n a clock)
    then have n: "n < length ?ts" using s by (simp add: step_def Let_def split: if_splits)
    then obtain mt where mt: "resumeCall (?ts ! n) a clock ?st = Some mt"
      and e: "w' = \<lparr>mgr = fst mt,
                     suspended = (case snd mt of None \<Rightarrow> take n ?ts @ drop (Suc n) ?ts
                              | Some t \<Rightarrow> ?ts[n := t])\<rparr>"
      using s Settle by (cases "resumeCall (?ts ! n) a clock ?st") (simp_all add: step_def Let_def)
    have hn: "list_all (wellFormed (maxRetries ?st)) (heldItems (?ts ! n))"
      using h n by (simp add: list_all_length)
    have "resumeCall (?ts ! n) a clock ?st = Some (fst mt, snd mt)" using mt by simp
    then have k: "queueOk (fst mt) \<and> maxRetries (fst mt) = maxRetries ?st \<and>
         (\<forall>t'. snd mt = Some t' \<longrightarrow> list_all (wellFormed (maxRetries ?st)) (heldItems t'))"
      using q hn by (intro resumeCall_keeps [of ?st "?ts ! n" a clock]) simp_all
    have hall: "\<forall>t \<in> set ?ts. list_all (wellFormed (maxRetries ?st)) (heldItems t)"
      using h by (simp add: list_all_iff)
    have "list_all (\<lambda>t. list_all (wellFormed (maxRetries ?st)) (heldItems t))
            (case snd mt of None \<Rightarrow> take n ?ts @ drop (Suc n) ?ts | Some t \<Rightarrow> ?ts[n := t])"
    proof (cases "snd mt")
      case None
      have "\<forall>t \<in> set (take n ?ts @ drop (Suc n) ?ts).
              list_all (wellFormed (maxRetries ?st)) (heldItems t)"
      proof
        fix t assume "t \<in> set (take n ?ts @ drop (Suc n) ?ts)"
        then have "t \<in> set ?ts" by (auto dest: in_set_takeD in_set_dropD)
        then show "list_all (wellFormed (maxRetries ?st)) (heldItems t)" using hall by blast
      qed
      then show ?thesis using None by (simp add: list_all_iff)
    next
      case (Some t')
      have t': "list_all (wellFormed (maxRetries ?st)) (heldItems t')" using k Some by simp
      have "\<forall>t \<in> set (?ts[n := t']). list_all (wellFormed (maxRetries ?st)) (heldItems t)"
      proof
        fix t assume "t \<in> set (?ts[n := t'])"
        then have "t = t' \<or> t \<in> set ?ts" using set_update_subset_insert [of ?ts n t'] by auto
        then show "list_all (wellFormed (maxRetries ?st)) (heldItems t)" using t' hall by blast
      qed
      then show ?thesis using Some by (simp add: list_all_iff)
    qed
    then show ?thesis unfolding e using k by (simp add: worldOk_def)
  qed
qed

lemma run_keeps:
  "worldOk w \<Longrightarrow> run cs w = Some w' \<Longrightarrow> worldOk w' \<and> maxRetries (mgr w') = maxRetries (mgr w)"
proof (induction cs arbitrary: w)
  case Nil
  then show ?case by simp
next
  case (Cons c cs)
  then obtain w1 where s: "step w c = Some w1" and r: "run cs w1 = Some w'"
    by (cases "step w c") simp_all
  have k: "worldOk w1 \<and> maxRetries (mgr w1) = maxRetries (mgr w)"
    using Cons.prems(1) s by (rule step_keeps)
  then show ?case using Cons.IH [of w1] r by simp
qed

lemma worldOk_boot: "slotOk 3 s \<Longrightarrow> worldOk (boot h s)"
  by (simp add: worldOk_def queueOk_def boot_def constructor_def)

lemma worldOk_bound:
  assumes "worldOk w" and "x \<in> set (syncQueue (mgr w))"
  shows "retries (heap (mgr w) x) \<le> maxRetries (mgr w)"
proof -
  have "wellFormed (maxRetries (mgr w)) (heap (mgr w) x)"
    using assms by (simp add: worldOk_def queueOk_def list_all_iff)
  then show ?thesis by (rule wellFormed_bound)
qed

lemma worldOk_queue:
  assumes "worldOk w"
  shows "distinct (syncQueue (mgr w))"
    and "\<forall>x \<in> set (syncQueue (mgr w)). eligible (maxRetries (mgr w)) (heap (mgr w) x)"
proof -
  show "distinct (syncQueue (mgr w))" using assms by (simp add: worldOk_def queueOk_def)
  show "\<forall>x \<in> set (syncQueue (mgr w)). eligible (maxRetries (mgr w)) (heap (mgr w) x)"
  proof
    fix x assume "x \<in> set (syncQueue (mgr w))"
    then have "wellFormed (maxRetries (mgr w)) (heap (mgr w) x)"
      using assms by (simp add: worldOk_def queueOk_def list_all_iff)
    then show "eligible (maxRetries (mgr w)) (heap (mgr w) x)" by (rule wellFormed_eligible)
  qed
qed

text \<open>Hence the queue in every state that the application reaches, when the queue it
  finds in the storage is well-formed.\<close>

lemma reached_queue:
  assumes "slotOk 3 s" and "run cs (boot h s) = Some w"
  shows "distinct (syncQueue (mgr w))"
    and "\<forall>x \<in> set (syncQueue (mgr w)). eligible (maxRetries (mgr w)) (heap (mgr w) x)"
    and "\<forall>x \<in> set (syncQueue (mgr w)). retries (heap (mgr w) x) \<le> maxRetries (mgr w)"
    and "maxRetries (mgr w) = 3"
proof -
  have b: "worldOk (boot h s)" using assms(1) by (rule worldOk_boot)
  have k: "worldOk w \<and> maxRetries (mgr w) = maxRetries (mgr (boot h s))"
    using b assms(2) by (rule run_keeps)
  show "distinct (syncQueue (mgr w))" using k worldOk_queue(1) by blast
  show "\<forall>x \<in> set (syncQueue (mgr w)). eligible (maxRetries (mgr w)) (heap (mgr w) x)"
    using k worldOk_queue(2) by blast
  show "\<forall>x \<in> set (syncQueue (mgr w)). retries (heap (mgr w) x) \<le> maxRetries (mgr w)"
    using k worldOk_bound by blast
  show "maxRetries (mgr w) = 3" using k by (simp add: boot_def constructor_def)
qed

subsection \<open>A call and the settling of its awaits\<close>

text \<open>The methods run from call to end are the steps of the overlapping model taken one
  after the other, with nothing in between.\<close>

lemma resumePass_runPass:
  "resumePass p (answerOf env p) (now env) st = Some (st', Some p') \<Longrightarrow>
     runPass env p st = runPass env p' st'"
  "resumePass p (answerOf env p) clock st = Some (st', None) \<Longrightarrow>
     fst (runPass env p st) = st'"
  by (cases p; auto simp: answerOf_def Let_def)+

lemma addToQueue_as_steps:
  "run [CallAddToQueue opn (new_id env) (created env),
        Settle (length (suspended w)) (Wrote (saveWrite env)) clock] w =
     Some (started (fst (addToQueue (mgr w) opn env)) (suspended w))"
proof -
  let ?st1 = "pushItem (mgr w) (newItem opn (new_id env) (created env))"
  let ?st2 = "saveQueue ?st1 (saveWrite env)"
  let ?mp = "if truthy (isOnline ?st2) then fireSyncAll ?st2 else (?st2, None)"
  have a: "fst (addToQueue (mgr w) opn env) = ?mp" by (simp add: addToQueue_def Let_def)
  have s1: "step w (CallAddToQueue opn (new_id env) (created env)) =
      Some \<lparr>mgr = ?st1, suspended = suspended w @ [InAddToQueue (map (heap ?st1) (syncQueue ?st1))]\<rparr>"
    by (simp add: step_def Let_def)
  have r: "resumeCall (InAddToQueue (map (heap ?st1) (syncQueue ?st1))) (Wrote (saveWrite env))
             clock ?st1 = Some (fst ?mp, map_option InSyncAll (snd ?mp))"
    by (simp add: Let_def saveQueue_settled)
  have s2: "step \<lparr>mgr = ?st1, suspended = suspended w @ [InAddToQueue (map (heap ?st1) (syncQueue ?st1))]\<rparr>
              (Settle (length (suspended w)) (Wrote (saveWrite env)) clock) =
      Some (started ?mp (suspended w))"
    unfolding step_def using r
    by (cases "snd ?mp") (simp_all add: Let_def started_def)
  show ?thesis unfolding a using s1 s2 by simp
qed

lemma removeQueueItem_as_steps:
  "run [CallRemoveQueueItem x, Settle (length (suspended w)) (Wrote wr) clock] w =
     Some \<lparr>mgr = removeQueueItem (mgr w) x wr, suspended = suspended w\<rparr>"
  by (simp add: step_def Let_def removeQueueItem_def saveQueue_settled)

lemma initialize_as_steps:
  "run [CallInitialize, Settle (length (suspended w)) (Read rd) c1,
        Settle (length (suspended w)) (Probe p) c2] w =
     Some \<lparr>mgr = fst (initialize (mgr w) rd p), suspended = suspended w\<rparr>"
  by (cases p) (simp_all add: step_def Let_def initialize_def)

lemma syncAll_as_steps:
  "run [CallSyncAll] w =
     Some (case snd (syncAllBegin (mgr w)) of
             Inl refused \<Rightarrow> \<lparr>mgr = fst (syncAllBegin (mgr w)), suspended = suspended w\<rparr>
           | Inr p \<Rightarrow> \<lparr>mgr = fst (syncAllBegin (mgr w)), suspended = suspended w @ [InSyncAll p]\<rparr>)"
  by (simp add: step_def started_def fireSyncAll_def split: sum.split)

subsection \<open>The retry budget\<close>








subsection \<open>Rejected calls and the end of a pass\<close>

lemma syncStep_frame:
  "delivered (fst (syncStep r oc sr)) = delivered (fst sr)"
  "listeners (fst (syncStep r oc sr)) = listeners (fst sr)"
  "isOnline (fst (syncStep r oc sr)) = isOnline (fst sr)"
  "syncInProgress (fst (syncStep r oc sr)) = syncInProgress (fst sr)"
  "maxRetries (fst (syncStep r oc sr)) = maxRetries (fst sr)"
  by (simp_all add: syncStep_def Let_def dropId_def split: outcome.split)

lemma syncLoop_frame:
  "delivered (fst (syncLoop net rs sr)) = delivered (fst sr)
   \<and> listeners (fst (syncLoop net rs sr)) = listeners (fst sr)
   \<and> isOnline (fst (syncLoop net rs sr)) = isOnline (fst sr)
   \<and> syncInProgress (fst (syncLoop net rs sr)) = syncInProgress (fst sr)
   \<and> maxRetries (fst (syncLoop net rs sr)) = maxRetries (fst sr)"
proof (induction rs arbitrary: sr)
  case Nil
  show ?case by simp
next
  case (Cons r rs)
  show ?case using Cons.IH [of "syncStep r (net r) sr"] by (simp add: syncStep_frame)
qed

text \<open>
  Claim C3, as amended. \<^verbatim>\<open>syncAll\<close> called while offline and with no pass in
  progress returns \<open>{success: false, reason: 'offline'}\<close>; called while a pass is in
  progress, online or not, it returns \<open>{success: false, reason: 'sync_in_progress'}\<close>.
  In both cases nothing is thrown and the whole state (queue, item objects, storage slots,
  flags, calls of listeners) is the one before the call. \<^verbatim>\<open>forceSync\<close> called
  while offline throws \<open>Cannot sync while offline\<close> and leaves the state as it was;
  called while online it is \<^verbatim>\<open>syncAll\<close>.
\<close>

theorem rejected_sync_invocation:
  "(\<not> truthy (isOnline st) \<and> \<not> syncInProgress st \<longrightarrow>
      syncAll st env = (st, Inr (Rejected ''offline'')))
   \<and> (syncInProgress st \<longrightarrow> syncAll st env = (st, Inr (Rejected ''sync_in_progress'')))
   \<and> (\<not> truthy (isOnline st) \<longrightarrow>
        forceSync st env = (st, Inl (Error ''Cannot sync while offline'')))
   \<and> (truthy (isOnline st) \<longrightarrow> forceSync st env = syncAll st env)"
  by (simp add: syncAll_def forceSync_def)

theorem rejected_sync_invocation_witness:
  "syncAll offlineIdle firstDelivered = (offlineIdle, Inr (Rejected ''offline''))
   \<and> syncAll offlineWhileDraining firstDelivered =
       (offlineWhileDraining, Inr (Rejected ''sync_in_progress''))
   \<and> forceSync offlineIdle firstDelivered =
       (offlineIdle, Inl (Error ''Cannot sync while offline''))
   \<and> forceSync twoQueued firstDelivered = syncAll twoQueued firstDelivered"
  using rejected_sync_invocation [of offlineIdle firstDelivered]
    rejected_sync_invocation [of offlineWhileDraining firstDelivered]
    rejected_sync_invocation [of twoQueued firstDelivered]
  by (simp add: offlineIdle_def offlineWhileDraining_def twoQueued_fields truthy_def)

theorem offline_while_draining_counterexample:
  "\<not> truthy (isOnline offlineWhileDraining)
   \<and> snd (syncAll offlineWhileDraining firstDelivered) = Inr (Rejected ''sync_in_progress'')
   \<and> snd (syncAll offlineWhileDraining firstDelivered) \<noteq> Inr (Rejected ''offline'')"
  by (simp add: syncAll_def offlineWhileDraining_def truthy_def)

lemma passSaved_console:
  "console (passSaved env st) =
     (case queueWrite env of IoOk \<Rightarrow> console st
      | IoFails msg \<Rightarrow> console st @ [''Failed to save sync queue: '' @ msg])"
  by (simp add: passSaved_def saveQueue_def split: io.split)

lemma twoQueued_runs:
  "truthy (isOnline twoQueued)" "\<not> syncInProgress twoQueued" "distinct (syncQueue twoQueued)"
  by (simp_all add: twoQueued_fields truthy_def)

lemma drain_returns_to_idle:
  assumes "truthy (isOnline st)" and "\<not> syncInProgress st" and "distinct (syncQueue st)"
      and "statusWrite env = IoOk"
  shows "\<not> syncInProgress (fst (syncAll st env))
       \<and> snd (syncAll st env) = Inr (Results (passResult env st))
       \<and> delivered (fst (syncAll st env)) =
           delivered st @ map (\<lambda>l. (l, SyncStarted)) (listeners st) @
           map (\<lambda>l. (l, SyncCompleted (passResult env st))) (listeners st)"
  using syncAll_fields [OF assms(1,2,3), of env] assms(4) by simp

text \<open>In every state in which a pass starts, a rejected write of the slot
  \<^verbatim>\<open>last_sync_status\<close> ends the call with the error and leaves the pass marked as in
  progress.\<close>

lemma status_write_rejected:
  assumes on: "truthy (isOnline st)" and idle: "\<not> syncInProgress st"
      and w: "statusWrite env = IoFails msg"
  shows "snd (syncAll st env) = Inl (Error msg)
       \<and> syncInProgress (fst (syncAll st env))
       \<and> delivered (fst (syncAll st env)) =
           delivered st @ map (\<lambda>l. (l, SyncStarted)) (listeners st)
       \<and> snd (syncAll (fst (syncAll st env)) env') = Inr (Rejected ''sync_in_progress'')"
proof -
  let ?st2 = "notifyListeners (st\<lparr>syncInProgress := True\<rparr>) SyncStarted"
  let ?res0 = "\<lparr>total = length (syncQueue ?st2), succeeded = 0, failed = 0, errors = []\<rparr>"
  let ?l = "syncLoop (deliver env) (syncQueue ?st2) (?st2, ?res0)"
  have fr: "delivered (fst ?l) = delivered st @ map (\<lambda>l. (l, SyncStarted)) (listeners st)"
    "syncInProgress (fst ?l)"
    using syncLoop_frame [of "deliver env" "syncQueue ?st2" "(?st2, ?res0)"]
    by (simp_all add: notifyListeners_def)
  have r: "syncAll st env = (saveQueue (fst ?l) (queueWrite env), Inl (Error msg))"
    using on idle w by (simp add: syncAll_def Let_def)
  have a: "syncInProgress (fst (syncAll st env))"
    unfolding r using fr(2) by (simp add: saveQueue_def split: io.split)
  have b: "delivered (fst (syncAll st env)) =
      delivered st @ map (\<lambda>l. (l, SyncStarted)) (listeners st)"
    unfolding r using fr(1) by (simp add: saveQueue_def split: io.split)
  have c: "snd (syncAll (fst (syncAll st env)) env') = Inr (Rejected ''sync_in_progress'')"
    using a by (simp add: syncAll_def)
  show ?thesis using r a b c by simp
qed

text \<open>
  Claim C4. A pass that starts ends with \<open>syncInProgress\<close> false and a
  \<open>syncCompleted\<close> event whenever the write of the slot \<^verbatim>\<open>last_sync_status\<close>
  succeeds, whatever the deliveries did (lemma \<open>drain_returns_to_idle\<close>). The write of
  line 191 is awaited outside any \<^verbatim>\<open>try\<close>, unlike every other storage call of the
  class: when it is rejected (lemma \<open>status_write_rejected\<close>), the pass has started,
  \<open>syncInProgress\<close> stays true, no \<open>syncCompleted\<close> event is sent, and every later
  call of \<^verbatim>\<open>syncAll\<close> is rejected with \<open>sync_in_progress\<close>. The theorem
  evaluates the method at such an input.
\<close>

theorem drain_stuck_when_status_write_fails:
  "truthy (isOnline twoQueued) \<and> \<not> syncInProgress twoQueued
   \<and> syncInProgress (fst (syncAll twoQueued statusWriteFails))
   \<and> delivered (fst (syncAll twoQueued statusWriteFails)) = [(7, SyncStarted)]
   \<and> snd (syncAll (fst (syncAll twoQueued statusWriteFails)) firstDelivered)
       = Inr (Rejected ''sync_in_progress'')"
proof -
  note f = syncAll_fields [OF twoQueued_runs, of statusWriteFails]
  have a: "syncInProgress (fst (syncAll twoQueued statusWriteFails))"
    using f(8) by (simp add: statusWriteFails_def)
  have b: "delivered (fst (syncAll twoQueued statusWriteFails)) = [(7, SyncStarted)]"
    using f(11) by (simp add: statusWriteFails_def twoQueued_fields)
  have c: "snd (syncAll (fst (syncAll twoQueued statusWriteFails)) firstDelivered)
       = Inr (Rejected ''sync_in_progress'')"
    using a by (simp add: syncAll_def)
  show ?thesis using a b c twoQueued_runs by simp
qed

theorem drain_stuck_when_status_write_fails_witness:
  "syncInProgress (fst (syncAll twoQueued statusWriteFails))
   \<and> snd (forceSync (fst (syncAll twoQueued statusWriteFails)) firstDelivered)
       = Inr (Rejected ''sync_in_progress'')"
proof -
  have "isOnline (fst (syncAll twoQueued statusWriteFails)) = Some True"
    using syncAll_fields(3) [OF twoQueued_runs, of statusWriteFails]
    by (simp add: twoQueued_fields)
  then show ?thesis
    using drain_stuck_when_status_write_fails by (simp add: forceSync_def truthy_def)
qed

text \<open>
  Claim C6. Storage failures are caught and logged in \<^verbatim>\<open>saveQueue\<close> and
  \<^verbatim>\<open>loadQueue\<close>, so that enqueueing, removal and clearing raise nothing. The write
  of line 191 in \<^verbatim>\<open>syncAll\<close> is not inside a \<^verbatim>\<open>try\<close>: when it is rejected,
  the error is not logged and reaches the caller of \<^verbatim>\<open>syncAll\<close>. The theorem
  evaluates the method at such an input.
\<close>

theorem status_write_failure_reaches_caller:
  "snd (syncAll twoQueued statusWriteFails) = Inl (Error ''disk full'')
   \<and> console (fst (syncAll twoQueued statusWriteFails)) = []"
proof -
  have a: "snd (syncAll twoQueued statusWriteFails) = Inl (Error ''disk full'')"
    using syncAll_fields(10) [OF twoQueued_runs, of statusWriteFails]
    by (simp add: statusWriteFails_def)
  have "fst (syncAll twoQueued statusWriteFails) = passSaved statusWriteFails twoQueued"
    unfolding syncAll_runs [OF twoQueued_runs] by (simp add: statusWriteFails_def)
  then have b: "console (fst (syncAll twoQueued statusWriteFails)) = []"
    by (simp add: passSaved_console statusWriteFails_def firstDelivered_def twoQueued_def
        freshManager_def constructor_def)
  show ?thesis using a b by simp
qed

theorem status_write_failure_reaches_caller_witness:
  "snd (forceSync twoQueued statusWriteFails) = Inl (Error ''disk full'')"
  using status_write_failure_reaches_caller twoQueued_runs(1) by (simp add: forceSync_def)

subsection \<open>Initialisation and connectivity changes\<close>

lemma loadQueue_isOnline: "isOnline (loadQueue st rd) = isOnline st"
  by (simp add: loadQueue_def allocate_def split: io.split slot.split)

lemma loadQueue_queue:
  "syncQueue (loadQueue st rd) =
     (case rd of
        IoFails msg \<Rightarrow> []
      | IoOk \<Rightarrow> (case queue_slot st of
                  Absent \<Rightarrow> syncQueue st
                | Unparsable \<Rightarrow> []
                | Stored items \<Rightarrow> [next_ref st ..< next_ref st + length items]))"
  by (simp add: loadQueue_def allocate_def split: io.split slot.split)

text \<open>
  Claim C7, as amended. \<^verbatim>\<open>initialize\<close> has no \<^verbatim>\<open>try\<close>. A storage error while the
  queue is loaded is caught inside \<^verbatim>\<open>loadQueue\<close> (the queue is then empty) and
  \<^verbatim>\<open>initialize\<close> goes on; when the probe \<^verbatim>\<open>NetInfo.fetch()\<close> resolves, the method
  reports \<^verbatim>\<open>isConnected && isInternetReachable\<close> of the probed state, which it also
  stores in the online flag. When the probe is rejected, the method is rejected with the
  same error, reports nothing, and leaves the online flag as it was.
\<close>

theorem initialize_outcomes:
  "snd (initialize st rd (Probed ns)) = Inr (js_and (isConnected ns) (isInternetReachable ns))
   \<and> isOnline (fst (initialize st rd (Probed ns))) =
        js_and (isConnected ns) (isInternetReachable ns)
   \<and> snd (initialize st rd (ProbeFails msg)) = Inl (Error msg)
   \<and> isOnline (fst (initialize st rd (ProbeFails msg))) = isOnline st
   \<and> (\<forall>e. rd = IoFails e \<longrightarrow> syncQueue (fst (initialize st rd p)) = [])
   \<and> (rd = IoOk \<and> queue_slot st = Unparsable \<longrightarrow> syncQueue (fst (initialize st rd p)) = [])
   \<and> (rd = IoOk \<and> queue_slot st = Absent \<longrightarrow>
        syncQueue (fst (initialize st rd p)) = syncQueue st)"
proof -
  have q: "syncQueue (fst (initialize st rd p)) = syncQueue (loadQueue st rd)"
    by (simp add: initialize_def Let_def split: probe.split)
  show ?thesis
    unfolding q loadQueue_queue
    by (simp add: initialize_def Let_def loadQueue_isOnline)
qed

theorem initialize_outcomes_witness:
  "snd (initialize freshManager (IoFails ''read error'') (Probed offlineProbe)) = Inr (Some False)
   \<and> snd (initialize freshManager IoOk (ProbeFails ''NetInfo unavailable''))
       = Inl (Error ''NetInfo unavailable'')
   \<and> isOnline (fst (initialize freshManager IoOk (ProbeFails ''NetInfo unavailable'')))
       = Some True
   \<and> syncQueue (fst (initialize freshManager (IoFails ''read error'') (Probed offlineProbe))) = []
   \<and> syncQueue (fst (initialize freshManager IoOk (Probed offlineProbe))) = []"
  using initialize_outcomes [of freshManager "IoFails ''read error''" offlineProbe
      "''NetInfo unavailable''" "Probed offlineProbe"]
    initialize_outcomes [of freshManager IoOk offlineProbe
      "''NetInfo unavailable''" "Probed offlineProbe"]
  by (simp add: freshManager_def constructor_def offlineProbe_def js_and_def)

theorem initialize_probe_error_counterexample:
  "snd (initialize freshManager IoOk (ProbeFails ''NetInfo unavailable''))
     = Inl (Error ''NetInfo unavailable'')
   \<and> snd (initialize freshManager IoOk (ProbeFails ''NetInfo unavailable'')) \<noteq> Inr (Some True)"
  by (simp add: initialize_def Let_def)

lemma netListener_cases:
  "netListener st ns =
     (let v = js_and (isConnected ns) (isInternetReachable ns);
          st2 = st\<lparr>isOnline := v,
                   delivered := delivered st @ map (\<lambda>l. (l, Online v)) (listeners st)\<rparr>
      in if \<not> truthy (isOnline st) \<and> truthy v \<and> \<not> syncInProgress st then
           (st2\<lparr>syncInProgress := True,
                delivered := delivered st2 @ map (\<lambda>l. (l, SyncStarted)) (listeners st)\<rparr>,
            Some (advance (syncQueue st)
                    \<lparr>total = length (syncQueue st), succeeded = 0, failed = 0, errors = []\<rparr>
                    (st2\<lparr>syncInProgress := True,
                         delivered := delivered st2 @ map (\<lambda>l. (l, SyncStarted)) (listeners st)\<rparr>)))
         else (st2, None))"
  by (simp add: netListener_def fireSyncAll_def syncAllBegin_def notifyListeners_def Let_def)

lemma netListener_pass:
  assumes "\<not> truthy (isOnline st)" and "truthy (js_and (isConnected ns) (isInternetReachable ns))"
      and "\<not> syncInProgress st"
  shows "\<exists>p. snd (netListener st ns) = Some p \<and>
           runPass env p (fst (netListener st ns)) =
             syncAll (notifyListeners (st\<lparr>isOnline := js_and (isConnected ns) (isInternetReachable ns)\<rparr>)
                        (Online (js_and (isConnected ns) (isInternetReachable ns)))) env"
proof -
  let ?v = "js_and (isConnected ns) (isInternetReachable ns)"
  let ?st2 = "notifyListeners (st\<lparr>isOnline := ?v\<rparr>) (Online ?v)"
  have n: "netListener st ns = fireSyncAll ?st2"
    using assms by (simp add: netListener_def Let_def notifyListeners_def)
  have g: "\<not> (\<not> truthy (isOnline ?st2) \<or> syncInProgress ?st2)"
    using assms by (simp add: notifyListeners_def)
  then obtain p where p: "snd (syncAllBegin ?st2) = Inr p"
    by (simp add: syncAllBegin_def Let_def)
  have f: "fireSyncAll ?st2 = (fst (syncAllBegin ?st2), Some p)"
    using p by (simp add: fireSyncAll_def)
  have "syncAll ?st2 env = runPass env p (fst (syncAllBegin ?st2))"
    using syncAll_uninterrupted [of ?st2 env] p by simp
  then show ?thesis using n f by simp
qed

text \<open>
  Claim C8, as amended. On every connectivity notification the handler stores the newly
  computed value \<open>v\<close> and calls every subscriber, in registration order, with
  \<open>{online: v}\<close>, whether or not \<open>v\<close> differs from the previous value. Only the drain
  is conditional. When the flag was falsy before and \<open>v\<close> is truthy, the handler calls
  \<^verbatim>\<open>syncAll\<close> without awaiting it; if no pass is in progress this starts one: the
  in-progress flag is set, every subscriber is called with \<open>{syncStarted: true}\<close>, and
  the pass is suspended at its first await, at the head of the snapshot of the queue; run
  to its end it does what a call of \<^verbatim>\<open>syncAll\<close> made right after the notification
  does. If a pass is in progress the call is refused. In every other case \<^verbatim>\<open>syncAll\<close>
  is not called: nothing but the \<open>{online: v}\<close> calls is sent and no pass is started.
  The handler itself changes neither the queue, nor the item objects, nor the storage.
\<close>

theorem netListener_always_notifies:
  "(let v = js_and (isConnected ns) (isInternetReachable ns);
        st' = fst (netListener st ns);
        starts = (\<not> truthy (isOnline st) \<and> truthy v \<and> \<not> syncInProgress st)
    in isOnline st' = v
     \<and> delivered st' =
         delivered st @ map (\<lambda>l. (l, Online v)) (listeners st) @
         (if starts then map (\<lambda>l. (l, SyncStarted)) (listeners st) else [])
     \<and> syncInProgress st' = (syncInProgress st \<or> starts)
     \<and> (snd (netListener st ns) \<noteq> None) = starts
     \<and> (starts \<longrightarrow>
          snd (netListener st ns) =
            Some (advance (syncQueue st)
                    \<lparr>total = length (syncQueue st), succeeded = 0, failed = 0, errors = []\<rparr> st')
          \<and> (\<forall>env. \<exists>p. snd (netListener st ns) = Some p \<and>
                runPass env p st' =
                  syncAll (notifyListeners (st\<lparr>isOnline := v\<rparr>) (Online v)) env))
     \<and> syncQueue st' = syncQueue st \<and> heap st' = heap st
     \<and> queue_slot st' = queue_slot st \<and> status_slot st' = status_slot st
     \<and> listeners st' = listeners st)"
proof -
  let ?v = "js_and (isConnected ns) (isInternetReachable ns)"
  show ?thesis
  proof (cases "\<not> truthy (isOnline st) \<and> truthy ?v \<and> \<not> syncInProgress st")
    case True
    have p: "\<forall>env. \<exists>p. snd (netListener st ns) = Some p \<and>
                runPass env p (fst (netListener st ns)) =
                  syncAll (notifyListeners (st\<lparr>isOnline := ?v\<rparr>) (Online ?v)) env"
      using True netListener_pass [of st ns] by blast
    show ?thesis
      unfolding Let_def using True p
      by (simp add: netListener_cases Let_def)
  next
    case False
    then show ?thesis
      unfolding Let_def by (auto simp: netListener_cases Let_def)
  qed
qed

theorem netListener_always_notifies_witness:
  "delivered (fst (netListener offlineIdle stillOnline)) =
     [(7, Online (Some True)), (7, SyncStarted)]
   \<and> isOnline (fst (netListener offlineIdle stillOnline)) = Some True
   \<and> syncInProgress (fst (netListener offlineIdle stillOnline))
   \<and> snd (netListener offlineIdle stillOnline) =
       Some (AwaitDelivery 0 [1] \<lparr>total = 2, succeeded = 0, failed = 0, errors = []\<rparr>)
   \<and> delivered (fst (netListener offlineWhileDraining stillOnline)) = [(7, Online (Some True))]
   \<and> snd (netListener offlineWhileDraining stillOnline) = None
   \<and> delivered (fst (netListener twoQueued stillOnline)) = [(7, Online (Some True))]
   \<and> snd (netListener twoQueued stillOnline) = None
   \<and> \<not> syncInProgress (fst (netListener twoQueued stillOnline))
   \<and> delivered (fst (netListener twoQueued offlineProbe)) = [(7, Online (Some False))]
   \<and> isOnline (fst (netListener twoQueued offlineProbe)) = Some False
   \<and> snd (netListener twoQueued offlineProbe) = None"
  using netListener_always_notifies [of stillOnline offlineIdle]
    netListener_always_notifies [of stillOnline offlineWhileDraining]
    netListener_always_notifies [of stillOnline twoQueued]
    netListener_always_notifies [of offlineProbe twoQueued]
  by (simp add: Let_def offlineIdle_def offlineWhileDraining_def twoQueued_fields stillOnline_def
      offlineProbe_def js_and_def truthy_def eligible_def sampleItem_def)

theorem unchanged_connectivity_counterexample:
  "isOnline twoQueued = Some True
   \<and> isOnline (fst (netListener twoQueued stillOnline)) = Some True
   \<and> delivered twoQueued = []
   \<and> delivered (fst (netListener twoQueued stillOnline)) = [(7, Online (Some True))]"
  by (simp add: netListener_def Let_def notifyListeners_def twoQueued_fields stillOnline_def
      js_and_def truthy_def)

subsection \<open>Enqueueing while offline, and removal\<close>

lemma addToQueue_offline:
  assumes off: "\<not> truthy (isOnline st)"
      and inv: "\<forall>r \<in> set (syncQueue st). r < next_ref st"
  shows "getQueueItems (fst (fst (addToQueue st opn env))) =
           getQueueItems st @ [newItem opn (new_id env) (created env)]"
    and "snd (addToQueue st opn env) = new_id env"
    and "snd (fst (addToQueue st opn env)) = None"
    and "isOnline (fst (fst (addToQueue st opn env))) = isOnline st"
    and "syncInProgress (fst (fst (addToQueue st opn env))) = syncInProgress st"
    and "\<forall>r \<in> set (syncQueue (fst (fst (addToQueue st opn env)))).
           r < next_ref (fst (fst (addToQueue st opn env)))"
    and "length (syncQueue (fst (fst (addToQueue st opn env)))) = Suc (length (syncQueue st))"
    and "queue_slot (fst (fst (addToQueue st opn env))) =
           (case saveWrite env of
              IoOk \<Rightarrow> Stored (getQueueItems st @ [newItem opn (new_id env) (created env)])
            | IoFails msg \<Rightarrow> queue_slot st)"
    and "console (fst (fst (addToQueue st opn env))) = console st @ saveLog (saveWrite env)"
    and "delivered (fst (fst (addToQueue st opn env))) = delivered st"
proof -
  let ?it = "newItem opn (new_id env) (created env)"
  let ?st1 = "pushItem st ?it"
  have o1: "\<not> truthy (isOnline (saveQueue ?st1 (saveWrite env)))"
    using off by (simp add: saveQueue_def pushItem_def split: io.split)
  have a: "fst (addToQueue st opn env) = (saveQueue ?st1 (saveWrite env), None)"
    using o1 by (simp add: addToQueue_def Let_def)
  have m: "map ((heap st)(next_ref st := ?it)) (syncQueue st) = map (heap st) (syncQueue st)"
    using inv by (auto intro: map_cong)
  have g: "getQueueItems ?st1 = getQueueItems st @ [?it]"
    using m by (simp add: getQueueItems_def pushItem_def)
  have g': "map (heap ?st1) (syncQueue ?st1) = getQueueItems st @ [?it]"
    using g by (simp add: getQueueItems_def)
  show "getQueueItems (fst (fst (addToQueue st opn env))) = getQueueItems st @ [?it]"
    unfolding a using g by (simp add: saveQueue_def getQueueItems_def split: io.split)
  show "snd (addToQueue st opn env) = new_id env"
    by (simp add: addToQueue_def Let_def newItem_def)
  show "snd (fst (addToQueue st opn env)) = None"
    unfolding a by simp
  show "isOnline (fst (fst (addToQueue st opn env))) = isOnline st"
    unfolding a by (simp add: saveQueue_def pushItem_def split: io.split)
  show "syncInProgress (fst (fst (addToQueue st opn env))) = syncInProgress st"
    unfolding a by (simp add: saveQueue_def pushItem_def split: io.split)
  show "\<forall>r \<in> set (syncQueue (fst (fst (addToQueue st opn env)))).
          r < next_ref (fst (fst (addToQueue st opn env)))"
    unfolding a using inv by (auto simp: saveQueue_def pushItem_def less_Suc_eq split: io.split)
  show "length (syncQueue (fst (fst (addToQueue st opn env)))) = Suc (length (syncQueue st))"
    unfolding a by (simp add: saveQueue_def pushItem_def split: io.split)
  show "queue_slot (fst (fst (addToQueue st opn env))) =
           (case saveWrite env of IoOk \<Rightarrow> Stored (getQueueItems st @ [?it])
            | IoFails msg \<Rightarrow> queue_slot st)"
    unfolding a fst_conv saveQueue_def g' by (simp add: pushItem_def split: io.split)
  show "console (fst (fst (addToQueue st opn env))) = console st @ saveLog (saveWrite env)"
    unfolding a by (simp add: saveQueue_def pushItem_def saveLog_def split: io.split)
  show "delivered (fst (fst (addToQueue st opn env))) = delivered st"
    unfolding a by (simp add: saveQueue_def pushItem_def split: io.split)
qed

lemma enqueueAll_offline:
  assumes "\<not> truthy (isOnline st)" and "\<forall>r \<in> set (syncQueue st). r < next_ref st"
  shows "getQueueItems (fst (fst (enqueueAll calls st))) =
           getQueueItems st @ map (\<lambda>c. newItem (fst c) (new_id (snd c)) (created (snd c))) calls
       \<and> snd (enqueueAll calls st) = map (\<lambda>c. new_id (snd c)) calls
       \<and> snd (fst (enqueueAll calls st)) = []
       \<and> isOnline (fst (fst (enqueueAll calls st))) = isOnline st
       \<and> syncInProgress (fst (fst (enqueueAll calls st))) = syncInProgress st
       \<and> delivered (fst (fst (enqueueAll calls st))) = delivered st
       \<and> console (fst (fst (enqueueAll calls st))) =
           console st @ concat (map (\<lambda>c. saveLog (saveWrite (snd c))) calls)
       \<and> length (syncQueue (fst (fst (enqueueAll calls st)))) = length (syncQueue st) + length calls
       \<and> (\<forall>r \<in> set (syncQueue (fst (fst (enqueueAll calls st)))).
            r < next_ref (fst (fst (enqueueAll calls st))))
       \<and> (calls \<noteq> [] \<and> saveWrite (snd (last calls)) = IoOk \<longrightarrow>
            queue_slot (fst (fst (enqueueAll calls st))) =
              Stored (getQueueItems st @
                      map (\<lambda>c. newItem (fst c) (new_id (snd c)) (created (snd c))) calls))
       \<and> ((\<forall>c \<in> set calls. saveWrite (snd c) \<noteq> IoOk) \<longrightarrow>
            queue_slot (fst (fst (enqueueAll calls st))) = queue_slot st)"
  using assms
proof (induction calls arbitrary: st)
  case Nil
  then show ?case by simp
next
  case (Cons c cs)
  let ?st1 = "fst (fst (addToQueue st (fst c) (snd c)))"
  note s = addToQueue_offline [OF Cons.prems, of "fst c" "snd c"]
  have off1: "\<not> truthy (isOnline ?st1)" using s(4) Cons.prems(1) by simp
  note ih = Cons.IH [OF off1 s(6)]
  have e: "fst (fst (enqueueAll (c # cs) st)) = fst (fst (enqueueAll cs ?st1))"
    "snd (fst (enqueueAll (c # cs) st)) = snd (fst (enqueueAll cs ?st1))"
    "snd (enqueueAll (c # cs) st) = snd (addToQueue st (fst c) (snd c)) # snd (enqueueAll cs ?st1)"
    using s(3) by (simp_all add: Let_def)
  show ?case
  proof (cases cs)
    case Nil
    then show ?thesis using s by (simp add: Let_def split: io.split)
  next
    case (Cons c' cs')
    then have ne: "cs \<noteq> []" by simp
    show ?thesis unfolding e using ih s ne by (auto split: io.splits)
  qed
qed

lemma enqueueAll_append:
  "fst (fst (enqueueAll (xs @ ys) st)) = fst (fst (enqueueAll ys (fst (fst (enqueueAll xs st)))))"
  by (induction xs arbitrary: st) (simp_all add: Let_def)

lemma newItem_fields:
  "newItem opn i t =
     \<lparr>item_id = i, timestamp = t, operation = op_type opn,
      data = op_data opn, url = op_url opn,
      http_method = (case op_method opn of None \<Rightarrow> ''POST''
                     | Some m \<Rightarrow> if m = [] then ''POST'' else m),
      retries = 0, status = ''pending'', lastError = None\<rparr>"
  by (simp add: newItem_def methodOrPost_def)

text \<open>
  Claim C5, as amended. Starting from an empty queue, \<open>n\<close> calls of
  \<^verbatim>\<open>addToQueue\<close> made while offline, each awaited before the next, leave exactly
  \<open>n\<close> items in the in-memory queue, in call order: the item of each call has the
  caller's type, data and url, the method of the caller or \<open>POST\<close> when the method is
  omitted (or the empty string), status \<open>pending\<close> and counter 0, and its id is what the
  call returns. No call starts a drain pass or calls a subscriber. Every call attempts to
  store the queue. The stored queue equals the in-memory queue after a call whose storage
  write succeeded. A rejected write is caught and logged: it adds the line
  \<open>Failed to save sync queue:\<close> with the message of the error to the console, and
  nothing else is logged; it leaves the stored queue as it was before the call, so after the
  \<open>n\<close>-th call the stored queue holds \<open>n\<close> items only if that write succeeded.
\<close>

theorem offline_enqueue_sequence:
  assumes off: "\<not> truthy (isOnline st)" and empty: "syncQueue st = []"
  shows "length (syncQueue (fst (fst (enqueueAll calls st)))) = length calls
       \<and> getQueueItems (fst (fst (enqueueAll calls st))) =
           map (\<lambda>c. \<lparr>item_id = new_id (snd c), timestamp = created (snd c),
                      operation = op_type (fst c), data = op_data (fst c), url = op_url (fst c),
                      http_method = (case op_method (fst c) of None \<Rightarrow> ''POST''
                                     | Some m \<Rightarrow> if m = [] then ''POST'' else m),
                      retries = 0, status = ''pending'', lastError = None\<rparr>) calls
       \<and> snd (enqueueAll calls st) = map (\<lambda>c. new_id (snd c)) calls
       \<and> snd (fst (enqueueAll calls st)) = []
       \<and> syncInProgress (fst (fst (enqueueAll calls st))) = syncInProgress st
       \<and> delivered (fst (fst (enqueueAll calls st))) = delivered st
       \<and> console (fst (fst (enqueueAll calls st))) =
           console st @
           concat (map (\<lambda>c. case saveWrite (snd c) of IoOk \<Rightarrow> []
                             | IoFails msg \<Rightarrow> [''Failed to save sync queue: '' @ msg]) calls)
       \<and> (calls \<noteq> [] \<and> saveWrite (snd (last calls)) = IoOk \<longrightarrow>
            persistedItems (fst (fst (enqueueAll calls st))) =
              getQueueItems (fst (fst (enqueueAll calls st))))
       \<and> (\<forall>c. saveWrite (snd c) \<noteq> IoOk \<longrightarrow>
            queue_slot (fst (fst (enqueueAll (calls @ [c]) st))) =
              queue_slot (fst (fst (enqueueAll calls st))))"
proof -
  have inv: "\<forall>r \<in> set (syncQueue st). r < next_ref st" using empty by simp
  have g0: "getQueueItems st = []" using empty by (simp add: getQueueItems_def)
  note a = enqueueAll_offline [OF off inv, of calls]
  let ?st' = "fst (fst (enqueueAll calls st))"
  have items: "getQueueItems ?st' =
      map (\<lambda>c. newItem (fst c) (new_id (snd c)) (created (snd c))) calls"
    using a g0 by simp
  have c1: "length (syncQueue ?st') = length calls" using a empty by simp
  have c2: "getQueueItems ?st' =
           map (\<lambda>c. \<lparr>item_id = new_id (snd c), timestamp = created (snd c),
                      operation = op_type (fst c), data = op_data (fst c), url = op_url (fst c),
                      http_method = (case op_method (fst c) of None \<Rightarrow> ''POST''
                                     | Some m \<Rightarrow> if m = [] then ''POST'' else m),
                      retries = 0, status = ''pending'', lastError = None\<rparr>) calls"
    unfolding items newItem_fields ..
  have c3: "snd (enqueueAll calls st) = map (\<lambda>c. new_id (snd c)) calls" using a by simp
  have c3a: "snd (fst (enqueueAll calls st)) = []" using a by simp
  have c3b: "syncInProgress ?st' = syncInProgress st" using a by simp
  have c3c: "delivered ?st' = delivered st" using a by simp
  have c3d: "console ?st' =
           console st @
           concat (map (\<lambda>c. case saveWrite (snd c) of IoOk \<Rightarrow> []
                             | IoFails msg \<Rightarrow> [''Failed to save sync queue: '' @ msg]) calls)"
    using a by (simp add: saveLog_def [abs_def])
  have c4: "calls \<noteq> [] \<and> saveWrite (snd (last calls)) = IoOk \<longrightarrow>
            persistedItems ?st' = getQueueItems ?st'"
    using a g0 items by (simp add: persistedItems_def)
  have c5: "\<forall>c. saveWrite (snd c) \<noteq> IoOk \<longrightarrow>
            queue_slot (fst (fst (enqueueAll (calls @ [c]) st))) = queue_slot ?st'"
  proof (intro allI impI)
    fix c :: "'a operation_request \<times> enqueue_env"
    assume w: "saveWrite (snd c) \<noteq> IoOk"
    have off': "\<not> truthy (isOnline ?st')" using a off by simp
    have inv': "\<forall>r \<in> set (syncQueue ?st'). r < next_ref ?st'" using a by simp
    have "queue_slot (fst (fst (enqueueAll [c] ?st'))) = queue_slot ?st'"
      using enqueueAll_offline [OF off' inv', of "[c]"] w by simp
    then show "queue_slot (fst (fst (enqueueAll (calls @ [c]) st))) = queue_slot ?st'"
      by (simp only: enqueueAll_append)
  qed
  show ?thesis using c1 c2 c3 c3a c3b c3c c3d c4 c5 by blast
qed

theorem offline_enqueue_sequence_witness:
  "length (syncQueue (fst (fst (enqueueAll [(sampleRequest, writeRejected),
      (sampleRequest, writeAccepted)] offlineFresh)))) = 2
   \<and> snd (enqueueAll [(sampleRequest, writeRejected), (sampleRequest, writeAccepted)] offlineFresh)
       = [1766394000000.25, 1766394060000.5]
   \<and> snd (fst (enqueueAll [(sampleRequest, writeRejected), (sampleRequest, writeAccepted)]
        offlineFresh)) = []
   \<and> console (fst (fst (enqueueAll [(sampleRequest, writeRejected),
        (sampleRequest, writeAccepted)] offlineFresh)))
       = [''Failed to save sync queue: disk full'']
   \<and> persistedItems (fst (fst (enqueueAll [(sampleRequest, writeRejected),
        (sampleRequest, writeAccepted)] offlineFresh)))
      = getQueueItems (fst (fst (enqueueAll [(sampleRequest, writeRejected),
          (sampleRequest, writeAccepted)] offlineFresh)))
   \<and> map http_method (getQueueItems (fst (fst (enqueueAll [(sampleRequest, writeRejected),
        (sampleRequest, writeAccepted)] offlineFresh)))) = [''POST'', ''POST'']
   \<and> queue_slot (fst (fst (enqueueAll ([] @ [(sampleRequest, writeRejected)]) offlineFresh)))
      = queue_slot (fst (fst (enqueueAll [] offlineFresh)))"
proof -
  have off: "\<not> truthy (isOnline offlineFresh)"
    by (simp add: offlineFresh_def truthy_def)
  have empty: "syncQueue offlineFresh = []"
    by (simp add: offlineFresh_def freshManager_def constructor_def)
  have c0: "console offlineFresh = []"
    by (simp add: offlineFresh_def freshManager_def constructor_def)
  note t = offline_enqueue_sequence [OF off empty]
  have a: "saveWrite (snd (sampleRequest, writeRejected)) \<noteq> IoOk"
    by (simp add: writeRejected_def)
  show ?thesis
    using t [of "[(sampleRequest, writeRejected), (sampleRequest, writeAccepted)]"]
      t [of "[]"] a c0
    by (simp add: writeAccepted_def writeRejected_def sampleRequest_def del: enqueueAll.simps)
qed

theorem rejected_write_counterexample:
  "\<not> truthy (isOnline offlineFresh) \<and> syncQueue offlineFresh = []
   \<and> length (syncQueue (fst (fst (enqueueAll [(sampleRequest, writeRejected)] offlineFresh)))) = 1
   \<and> queue_slot (fst (fst (enqueueAll [(sampleRequest, writeRejected)] offlineFresh))) = Absent
   \<and> length (persistedItems (fst (fst (enqueueAll [(sampleRequest, writeRejected)]
        offlineFresh)))) = 0"
  by (simp add: Let_def addToQueue_def pushItem_def saveQueue_def persistedItems_def
      offlineFresh_def freshManager_def constructor_def writeRejected_def truthy_def)

text \<open>
  Claim C10, as amended. \<^verbatim>\<open>removeQueueItem(id)\<close> removes from the in-memory queue
  exactly the items whose id is the argument (all of them, when several share it), keeps
  the other items, unchanged and in their order, and does not touch the online flag, the
  draining flag or the list of listeners. It then writes the resulting queue to storage:
  when the write succeeds the stored queue is the resulting queue, and when the write is
  rejected the error is caught and the stored queue stays what it was.
\<close>

theorem removeQueueItem_frame:
  "syncQueue (removeQueueItem st x w) = filter (\<lambda>r. item_id (heap st r) \<noteq> x) (syncQueue st)
   \<and> heap (removeQueueItem st x w) = heap st
   \<and> getQueueItems (removeQueueItem st x w) = filter (\<lambda>it. item_id it \<noteq> x) (getQueueItems st)
   \<and> isOnline (removeQueueItem st x w) = isOnline st
   \<and> syncInProgress (removeQueueItem st x w) = syncInProgress st
   \<and> listeners (removeQueueItem st x w) = listeners st
   \<and> (w = IoOk \<longrightarrow> queue_slot (removeQueueItem st x w) =
         Stored (filter (\<lambda>it. item_id it \<noteq> x) (getQueueItems st)))
   \<and> (\<forall>msg. w = IoFails msg \<longrightarrow> queue_slot (removeQueueItem st x w) = queue_slot st)"
  by (simp add: removeQueueItem_def saveQueue_def dropId_def getQueueItems_def filter_map
      comp_def split: io.split)

theorem removeQueueItem_frame_witness:
  "syncQueue (removeQueueItem twoQueued 1 IoOk) = [1]
   \<and> getQueueItems (removeQueueItem twoQueued 1 IoOk) = [sampleItem 2]
   \<and> queue_slot (removeQueueItem twoQueued 1 IoOk) = Stored [sampleItem 2]
   \<and> queue_slot (removeQueueItem savedOne 1 (IoFails ''disk full'')) = Stored [sampleItem 1]
   \<and> listeners (removeQueueItem twoQueued 1 IoOk) = [7]"
  using removeQueueItem_frame [of twoQueued 1 IoOk]
    removeQueueItem_frame [of savedOne 1 "IoFails ''disk full''"]
  by (simp add: twoQueued_fields savedOne_def getQueueItems_def sampleItem_def)

theorem removal_not_persisted_counterexample:
  "syncQueue (removeQueueItem savedOne 1 (IoFails ''disk full'')) = []
   \<and> queue_slot (removeQueueItem savedOne 1 (IoFails ''disk full'')) = Stored [sampleItem 1]
   \<and> persistedItems (removeQueueItem savedOne 1 (IoFails ''disk full''))
       \<noteq> getQueueItems (removeQueueItem savedOne 1 (IoFails ''disk full''))"
  by (simp add: removeQueueItem_def saveQueue_def dropId_def savedOne_def persistedItems_def
      getQueueItems_def sampleItem_def)

subsection \<open>The conflict resolver\<close>

text \<open>
  Claim C9, as amended. The result of \<^verbatim>\<open>resolveConflict\<close> depends on the two records
  and the strategy and, for \<open>merge\<close>, on the clock. \<open>server_wins\<close>, an omitted strategy
  and every unrecognised strategy return \<open>serverData\<close>; \<open>local_wins\<close> returns
  \<open>localData\<close>. \<open>merge\<close> returns a record with \<open>_merged\<close> true and \<open>_mergedAt\<close>
  the current time, and with every other field taken from \<open>localData\<close> when it has the
  field and from \<open>serverData\<close> otherwise. \<open>newer_wins\<close> reads the \<open>timestamp\<close> field
  of each record as a date: a missing or falsy field (\<open>undefined\<close>, \<open>null\<close>,
  \<open>false\<close>, \<open>0\<close>, the empty string) is the epoch, \<open>true\<close> is one millisecond after
  it, a number is that many milliseconds after it when it is in the range of dates and no
  date otherwise, and a string is what the platform parses it to, which may be no date. When
  both fields are dates, the result is \<open>localData\<close> if its date is strictly later than
  that of \<open>serverData\<close>, and \<open>serverData\<close> otherwise, also on a tie; when one of
  them is no date, the result is \<open>serverData\<close>.
\<close>

theorem resolveConflict_strategies:
  "resolveConflict parse clock s l (Some ''server_wins'') = s
   \<and> resolveConflict parse clock s l None = s
   \<and> resolveConflict parse clock s l (Some ''local_wins'') = l
   \<and> resolveConflict parse clock s l (Some ''merge'') ''_merged'' = Some (JBool True)
   \<and> resolveConflict parse clock s l (Some ''merge'') ''_mergedAt'' = Some (JStr clock)
   \<and> (\<forall>k. k \<noteq> ''_merged'' \<and> k \<noteq> ''_mergedAt'' \<longrightarrow>
        resolveConflict parse clock s l (Some ''merge'') k =
          (case l k of Some v \<Rightarrow> Some v | None \<Rightarrow> s k))
   \<and> (\<forall>tl ts. newDate parse (orZero (getField l ''timestamp'')) = Some tl \<and>
              newDate parse (orZero (getField s ''timestamp'')) = Some ts \<longrightarrow>
        resolveConflict parse clock s l (Some ''newer_wins'') = (if ts < tl then l else s))
   \<and> (newDate parse (orZero (getField l ''timestamp'')) = None \<or>
      newDate parse (orZero (getField s ''timestamp'')) = None \<longrightarrow>
        resolveConflict parse clock s l (Some ''newer_wins'') = s)
   \<and> (\<forall>m :: jsobject.
        (m ''timestamp'' \<in> {None, Some JUndefined, Some JNull, Some (JBool False), Some (JNum 0),
                            Some (JStr [])} \<longrightarrow>
           newDate parse (orZero (getField m ''timestamp'')) = Some 0)
      \<and> (m ''timestamp'' = Some (JBool True) \<longrightarrow>
           newDate parse (orZero (getField m ''timestamp'')) = Some 1)
      \<and> (\<forall>n. m ''timestamp'' = Some (JNum n) \<and> n \<noteq> 0 \<longrightarrow>
           newDate parse (orZero (getField m ''timestamp'')) =
             (if \<bar>n\<bar> \<le> 8640000000000000 then Some n else None))
      \<and> (\<forall>x. m ''timestamp'' = Some (JStr x) \<and> x \<noteq> [] \<longrightarrow>
           newDate parse (orZero (getField m ''timestamp'')) = parse x))
   \<and> (\<forall>x. x \<noteq> ''server_wins'' \<and> x \<noteq> ''local_wins'' \<and> x \<noteq> ''merge'' \<and> x \<noteq> ''newer_wins'' \<longrightarrow>
        resolveConflict parse clock s l (Some x) = s)"
proof -
  have z: "\<forall>m :: jsobject.
        (m ''timestamp'' \<in> {None, Some JUndefined, Some JNull, Some (JBool False), Some (JNum 0),
                            Some (JStr [])} \<longrightarrow>
           newDate parse (orZero (getField m ''timestamp'')) = Some 0)
      \<and> (m ''timestamp'' = Some (JBool True) \<longrightarrow>
           newDate parse (orZero (getField m ''timestamp'')) = Some 1)
      \<and> (\<forall>n. m ''timestamp'' = Some (JNum n) \<and> n \<noteq> 0 \<longrightarrow>
           newDate parse (orZero (getField m ''timestamp'')) =
             (if \<bar>n\<bar> \<le> 8640000000000000 then Some n else None))
      \<and> (\<forall>x. m ''timestamp'' = Some (JStr x) \<and> x \<noteq> [] \<longrightarrow>
           newDate parse (orZero (getField m ''timestamp'')) = parse x)"
    by (auto simp: getField_def orZero_def js_truthy_def newDate_def)
  have m: "\<forall>k. k \<noteq> ''_merged'' \<and> k \<noteq> ''_mergedAt'' \<longrightarrow>
        resolveConflict parse clock s l (Some ''merge'') k =
          (case l k of Some v \<Rightarrow> Some v | None \<Rightarrow> s k)"
    by (simp add: resolveConflict_def map_add_def split: option.split)
  have o: "\<forall>x. x \<noteq> ''server_wins'' \<and> x \<noteq> ''local_wins'' \<and> x \<noteq> ''merge'' \<and> x \<noteq> ''newer_wins'' \<longrightarrow>
        resolveConflict parse clock s l (Some x) = s"
    by (simp add: resolveConflict_def)
  have n1: "\<forall>tl ts. newDate parse (orZero (getField l ''timestamp'')) = Some tl \<and>
              newDate parse (orZero (getField s ''timestamp'')) = Some ts \<longrightarrow>
        resolveConflict parse clock s l (Some ''newer_wins'') = (if ts < tl then l else s)"
    by (simp add: resolveConflict_def dateGreater_def)
  have n2: "newDate parse (orZero (getField l ''timestamp'')) = None \<or>
      newDate parse (orZero (getField s ''timestamp'')) = None \<longrightarrow>
        resolveConflict parse clock s l (Some ''newer_wins'') = s"
    by (auto simp: resolveConflict_def dateGreater_def split: option.split)
  have rest: "resolveConflict parse clock s l (Some ''server_wins'') = s"
    "resolveConflict parse clock s l None = s"
    "resolveConflict parse clock s l (Some ''local_wins'') = l"
    "resolveConflict parse clock s l (Some ''merge'') ''_merged'' = Some (JBool True)"
    "resolveConflict parse clock s l (Some ''merge'') ''_mergedAt'' = Some (JStr clock)"
    by (simp_all add: resolveConflict_def)
  show ?thesis using rest m o z n1 n2 by blast
qed

lemma sample_times:
  "newDate twoStamps (orZero (getField serverRecord ''timestamp'')) = Some 1766394000000"
  "newDate twoStamps (orZero (getField localRecord ''timestamp'')) = Some 1766394060000"
  "newDate twoStamps (orZero (getField tiedRecord ''timestamp'')) = Some 1766394000000"
  "newDate twoStamps (orZero (getField untimedRecord ''timestamp'')) = Some 0"
  "newDate twoStamps (orZero (getField undatedRecord ''timestamp'')) = None"
  by (simp_all add: serverRecord_def localRecord_def tiedRecord_def untimedRecord_def
      undatedRecord_def twoStamps_def getField_def orZero_def js_truthy_def newDate_def)

theorem resolveConflict_strategies_witness:
  "resolveConflict twoStamps ''2025-12-22T10:00:00.000Z'' serverRecord localRecord
      (Some ''newer_wins'') = localRecord
   \<and> resolveConflict twoStamps ''2025-12-22T10:00:00.000Z'' localRecord serverRecord
      (Some ''newer_wins'') = localRecord
   \<and> resolveConflict twoStamps ''2025-12-22T10:00:00.000Z'' serverRecord tiedRecord
      (Some ''newer_wins'') = serverRecord
   \<and> resolveConflict twoStamps ''2025-12-22T10:00:00.000Z'' tiedRecord serverRecord
      (Some ''newer_wins'') = tiedRecord
   \<and> resolveConflict twoStamps ''2025-12-22T10:00:00.000Z'' serverRecord undatedRecord
      (Some ''newer_wins'') = serverRecord
   \<and> resolveConflict twoStamps ''2025-12-22T10:00:00.000Z'' undatedRecord serverRecord
      (Some ''newer_wins'') = undatedRecord
   \<and> resolveConflict twoStamps ''2025-12-22T10:00:00.000Z'' untimedRecord serverRecord
      (Some ''newer_wins'') = serverRecord
   \<and> resolveConflict twoStamps ''2025-12-22T10:00:00.000Z'' serverRecord localRecord
      (Some ''merge'') ''name'' = Some (JStr ''local'')
   \<and> resolveConflict twoStamps ''2025-12-22T10:00:00.000Z'' serverRecord untimedRecord
      (Some ''merge'') ''timestamp'' = Some (JStr ''2025-12-22T09:00:00.000Z'')
   \<and> resolveConflict twoStamps ''2025-12-22T10:00:00.000Z'' serverRecord localRecord
      (Some ''latest'') = serverRecord
   \<and> serverRecord \<noteq> tiedRecord
   \<and> newDate twoStamps (orZero (getField untimedRecord ''timestamp'')) = Some 0"
proof -
  note t = resolveConflict_strategies [of twoStamps "''2025-12-22T10:00:00.000Z''"]
  have d: "serverRecord \<noteq> tiedRecord"
  proof
    assume "serverRecord = tiedRecord"
    then have "serverRecord ''name'' = tiedRecord ''name''" by simp
    then show False by (simp add: serverRecord_def tiedRecord_def)
  qed
  have a: "untimedRecord ''timestamp'' = None" by (simp add: untimedRecord_def)
  have m1: "localRecord ''name'' = Some (JStr ''local'')" by (simp add: localRecord_def)
  have m2: "untimedRecord ''timestamp'' = None"
    "serverRecord ''timestamp'' = Some (JStr ''2025-12-22T09:00:00.000Z'')"
    by (simp_all add: untimedRecord_def serverRecord_def)
  show ?thesis
    using t [of serverRecord localRecord] t [of localRecord serverRecord]
      t [of serverRecord tiedRecord] t [of tiedRecord serverRecord]
      t [of serverRecord undatedRecord] t [of undatedRecord serverRecord]
      t [of untimedRecord serverRecord] t [of serverRecord untimedRecord] d m1 m2
    by (simp add: sample_times)
qed

theorem merge_depends_on_clock_counterexample:
  "resolveConflict twoStamps ''2025-12-22T10:00:00.000Z'' serverRecord localRecord (Some ''merge'')
     \<noteq> resolveConflict twoStamps ''2025-12-22T10:00:01.000Z'' serverRecord localRecord (Some ''merge'')"
proof
  assume "resolveConflict twoStamps ''2025-12-22T10:00:00.000Z'' serverRecord localRecord (Some ''merge'')
     = resolveConflict twoStamps ''2025-12-22T10:00:01.000Z'' serverRecord localRecord (Some ''merge'')"
  then have "resolveConflict twoStamps ''2025-12-22T10:00:00.000Z'' serverRecord localRecord (Some ''merge'') ''_mergedAt''
     = resolveConflict twoStamps ''2025-12-22T10:00:01.000Z'' serverRecord localRecord (Some ''merge'') ''_mergedAt''"
    by (rule fun_cong)
  then show False by (simp add: resolveConflict_def)
qed

end
